theory Spec2Isabelle
  imports Complex_Main "HOL-Library.Sublist"
begin

section \<open>BotBuilder: the build / debug / run lifecycle of \<open>App.tsx\<close> and \<open>backendService.ts\<close>\<close>

text \<open>
  The development embeds the session logic of the React component \<open>App\<close> and of the build
  client \<open>buildBot\<close>.  Conventions:

  \<^item> A JavaScript string is a \<open>string\<close>; the characters are the code units below 256.
  \<^item> The \<open>timestamp\<close> of a log entry is the wall clock and is left out.
  \<^item> \<open>useState\<close> cells and \<open>useRef\<close> cells are fields of one record \<open>App\<close>; a handler is a
    function from \<open>App\<close> to \<open>App\<close>.
  \<^item> A handler that reads a \<open>useState\<close> value reads the constant of the render that created
    the handler.  Where this matters the captured value is an explicit argument.
  \<^item> An \<open>await\<close> cuts a handler into the part before it and the continuation, which takes
    the awaited result (an exception is \<open>Inl\<close>) as an argument.
\<close>

subsection \<open>types.ts\<close>

datatype BuildState =
  IDLE | VALIDATING | GATHERING_CONFIG | PLANNING | CODING | BUILDING | BUILD_RUNNING
  | DEBUGGING | SUCCESS | ERROR

datatype BotRuntimeState = STOPPED | RUNNING

datatype LogType = Log | Error | User | Bot | Raw

record LogEntry =
  message :: string
  type :: LogType

record GeneratedFile =
  name :: string
  code :: string

record FixedFile = GeneratedFile +
  changes_summary :: string

record BotMetadata =
  username :: string
  bot_id :: int

record RequiredSecret =
  key :: string
  description :: string

text \<open>\<open>DebugResponse\<close> of geminiService.ts.  The response is parsed JSON, so the two arrays
  may be missing (\<open>None\<close>); \<open>runDebugStep\<close> tests for that.  The number \<open>confidence\<close> is used
  once, in \<^verbatim>\<open>${Math.round(fixData.confidence * 100)}\<close>; the arithmetic of the engine on
  doubles is not modelled, and the response carries the text that this expression gives
  (\<open>confidence_percent\<close>).\<close>

record DebugResponse =
  fixed_files :: "FixedFile list option"
  updated_requirements :: "string list option"
  retry_cmd :: string
  confidence_percent :: string

subsection \<open>JavaScript library functions\<close>

text \<open>\<open>Array.prototype.findIndex\<close>; \<open>None\<close> is the result \<open>-1\<close>.\<close>

fun findIndex :: "('a \<Rightarrow> bool) \<Rightarrow> 'a list \<Rightarrow> nat option" where
  "findIndex p [] = None"
| "findIndex p (x # xs) = (if p x then Some 0 else map_option Suc (findIndex p xs))"

text \<open>\<open>String.prototype.includes\<close>.\<close>

fun str_includes :: "string \<Rightarrow> string \<Rightarrow> bool" where
  "str_includes [] search = (search = [])"
| "str_includes (c # s) search = (prefix search (c # s) \<or> str_includes s search)"

text \<open>\<open>s.split('\n')\<close>: the pieces between line feeds; the empty string gives one empty piece.\<close>

fun split_nl :: "string \<Rightarrow> string list" where
  "split_nl [] = [[]]"
| "split_nl (c # cs) =
     (if c = CHR 0x0A then [] # split_nl cs
      else (case split_nl cs of [] \<Rightarrow> [[c]] | l # ls \<Rightarrow> (c # l) # ls))"

text \<open>\<open>String.prototype.trim\<close>, on the white space and line terminators below 256:
  TAB, LF, VT, FF, CR, SPACE and NBSP.\<close>

definition isWhiteSpace :: "char \<Rightarrow> bool" where
  "isWhiteSpace c =
     (c = CHR 0x09 \<or> c = CHR 0x0A \<or> c = CHR 0x0B \<or> c = CHR 0x0C \<or> c = CHR 0x0D
      \<or> c = CHR 0x20 \<or> c = CHR 0xA0)"

definition trim :: "string \<Rightarrow> string" where
  "trim s = rev (dropWhile isWhiteSpace (rev (dropWhile isWhiteSpace s)))"

text \<open>\<open>Array.prototype.join\<close>.\<close>

fun join :: "string \<Rightarrow> string list \<Rightarrow> string" where
  "join sep [] = []"
| "join sep [x] = x"
| "join sep (x # y # ys) = x @ sep @ join sep (y # ys)"

text \<open>A JavaScript \<open>Set\<close> of strings is the list of its elements in insertion order;
  \<open>Set.prototype.add\<close> ignores an element that is present, \<open>new Set(xs)\<close> adds the elements
  of \<open>xs\<close> one by one, and \<open>Array.from\<close> reads the list.\<close>

definition Set_add :: "'a list \<Rightarrow> 'a \<Rightarrow> 'a list" where
  "Set_add s x = (if x \<in> set s then s else s @ [x])"

definition new_Set :: "'a list \<Rightarrow> 'a list" where
  "new_Set xs = foldl Set_add [] xs"

text \<open>Decimal rendering of a number in a template string, and \<open>Math.round\<close>.\<close>

function show_nat :: "nat \<Rightarrow> string" where
  "show_nat n =
     (if n < 10 then [''0123456789'' ! n]
      else show_nat (n div 10) @ [''0123456789'' ! (n mod 10)])"
  by pat_completeness auto
termination
  by (relation "measure (\<lambda>n. n)") auto

declare show_nat.simps [simp del]

subsection \<open>The patch merge of \<open>runDebugStep\<close>\<close>

text \<open>
  The body of \<open>fixData.fixed_files.forEach\<close>, on the local array \<open>updatedFiles\<close>:
  \<^verbatim>\<open>
  const fileIndex = updatedFiles.findIndex(f => f.name === fixedFile.name);
  if (fileIndex !== -1) updatedFiles[fileIndex] = { name: fixedFile.name, code: fixedFile.code };
  else updatedFiles.push({ name: fixedFile.name, code: fixedFile.code });
  \<close>
\<close>

definition applyFix :: "GeneratedFile list \<Rightarrow> FixedFile \<Rightarrow> GeneratedFile list" where
  "applyFix updatedFiles fixedFile =
     (case findIndex (\<lambda>f. name f = name fixedFile) updatedFiles of
        Some fileIndex \<Rightarrow>
          updatedFiles[fileIndex := \<lparr>name = name fixedFile, code = code fixedFile\<rparr>]
      | None \<Rightarrow> updatedFiles @ [\<lparr>name = name fixedFile, code = code fixedFile\<rparr>])"

definition applyFixMessage :: "GeneratedFile list \<Rightarrow> FixedFile \<Rightarrow> string" where
  "applyFixMessage updatedFiles fixedFile =
     (case findIndex (\<lambda>f. name f = name fixedFile) updatedFiles of
        Some fileIndex \<Rightarrow>
          ''- Applying fix to '' @ name fixedFile @ '': '' @ changes_summary fixedFile
      | None \<Rightarrow>
          ''- AI added new file '' @ name fixedFile @ '': '' @ changes_summary fixedFile)"

definition applyFixes :: "GeneratedFile list \<Rightarrow> FixedFile list \<Rightarrow> GeneratedFile list" where
  "applyFixes currentFiles fixed = foldl applyFix currentFiles fixed"

text \<open>
  The dependency block.  \<open>find\<close> returns the first file named \<open>requirements.txt\<close> and the
  assignment to \<open>reqsFile.code\<close> changes that element of \<open>updatedFiles\<close>.
  \<^verbatim>\<open>
  if (fixData.updated_requirements && fixData.updated_requirements.length > 0) {
    const reqsFile = updatedFiles.find(f => f.name === 'requirements.txt');
    if (reqsFile) {
      const existingReqs = new Set(reqsFile.code.split('\n').map(r => r.trim()).filter(Boolean));
      fixData.updated_requirements.forEach((req: string) => existingReqs.add(req));
      reqsFile.code = Array.from(existingReqs).join('\n');
    } }
  \<close>
\<close>

definition existingReqs :: "string \<Rightarrow> string list" where
  "existingReqs reqsCode = new_Set (filter (\<lambda>r. r \<noteq> []) (map trim (split_nl reqsCode)))"

definition mergedReqs :: "string \<Rightarrow> string list \<Rightarrow> string list" where
  "mergedReqs reqsCode reqs = foldl Set_add (existingReqs reqsCode) reqs"

definition hasUpdatedRequirements :: "string list option \<Rightarrow> bool" where
  "hasUpdatedRequirements r = (case r of None \<Rightarrow> False | Some reqs \<Rightarrow> 0 < length reqs)"

definition updateRequirements :: "string list option \<Rightarrow> GeneratedFile list \<Rightarrow> GeneratedFile list" where
  "updateRequirements r updatedFiles =
     (if hasUpdatedRequirements r then
        (case findIndex (\<lambda>f. name f = ''requirements.txt'') updatedFiles of
           None \<Rightarrow> updatedFiles
         | Some i \<Rightarrow>
             updatedFiles[i := (updatedFiles ! i)
               \<lparr>code := join [CHR 0x0A] (mergedReqs (code (updatedFiles ! i)) (the r))\<rparr>])
      else updatedFiles)"


subsection \<open>backendService.ts: the build client \<open>buildBot\<close>\<close>

text \<open>
  The browser's \<open>WebSocket\<close> object together with the closure variables of the \<open>buildBot\<close>
  call that created it (\<open>files\<close>, \<open>token\<close>, \<open>accumulatedErrorLogs\<close>, \<open>completed\<close>, and
  whether the watchdog \<open>timeoutId\<close> is still armed).
\<close>

datatype ReadyState = CONNECTING | OPEN | CLOSING | CLOSED

record WebSocket =
  readyState :: ReadyState
  closeEventFired :: bool
  closeCalls :: "(nat \<times> string) list"
  sent :: "(GeneratedFile list \<times> string) list"
  ws_files :: "GeneratedFile list"
  ws_token :: string
  accumulatedErrorLogs :: string
  completed :: bool
  timeoutArmed :: bool

text \<open>The parsed \<open>event.data\<close> of a message: \<open>BUILD_LOG\<close> with its \<open>line\<close> (\<open>None\<close> when the
  line is not a string), \<open>BUILD_DONE\<close>, \<open>BUILD_ERROR\<close> with its \<open>message\<close> (empty when
  absent), an object of another \<open>type\<close>, or data on which the handler's \<open>try\<close> block throws
  (given with the raw text).\<close>

datatype ServerMessage =
  BUILD_LOG "string option" | BUILD_DONE | BUILD_ERROR string | OTHER_TYPE | MALFORMED string

datatype SocketEvent =
  EV_open | EV_message ServerMessage | EV_error | EV_close nat string | EV_timeout

datatype Callback = CB_onProgress string | CB_onComplete | CB_onError string

definition BUILD_TIMEOUT_MS :: nat where
  "BUILD_TIMEOUT_MS = 120000"

definition newWebSocket :: "GeneratedFile list \<Rightarrow> string \<Rightarrow> WebSocket" where
  "newWebSocket files tok =
     \<lparr>readyState = CONNECTING, closeEventFired = False, closeCalls = [], sent = [],
      ws_files = files, ws_token = tok, accumulatedErrorLogs = [], completed = False,
      timeoutArmed = True\<rparr>"

text \<open>\<open>ws.close(code, reason)\<close>: nothing happens on a socket that is closing or closed;
  otherwise the closing handshake starts.\<close>

definition ws_close :: "nat \<Rightarrow> string \<Rightarrow> WebSocket \<Rightarrow> WebSocket" where
  "ws_close c reason ws =
     (if readyState ws = CLOSING \<or> readyState ws = CLOSED then ws
      else ws\<lparr>readyState := CLOSING, closeCalls := closeCalls ws @ [(c, reason)]\<rparr>)"

definition cleanup :: "WebSocket \<Rightarrow> WebSocket" where
  "cleanup ws = ws\<lparr>timeoutArmed := False\<rparr>"

text \<open>\<open>a || b\<close> on strings, and \<open>toLowerCase\<close> on the letters A to Z.\<close>

definition js_or :: "string \<Rightarrow> string \<Rightarrow> string" where
  "js_or a b = (if a = [] then b else a)"

definition toLowerCase :: "string \<Rightarrow> string" where
  "toLowerCase s =
     map (\<lambda>c. case map_of (zip ''ABCDEFGHIJKLMNOPQRSTUVWXYZ'' ''abcdefghijklmnopqrstuvwxyz'') c of
                Some l \<Rightarrow> l
              | None \<Rightarrow> c) s"

text \<open>The callback of \<open>setTimeout\<close>.\<close>

definition timeoutHandler :: "WebSocket \<Rightarrow> WebSocket \<times> Callback list" where
  "timeoutHandler ws =
     (if readyState ws \<noteq> CLOSED \<and> readyState ws \<noteq> CLOSING then
        (let ws1 = ws_close 4008 ''Client-side timeout'' ws in
         if \<not> completed ws1 then
           (ws1\<lparr>completed := True\<rparr>,
            [CB_onError (''Build request timed out after ''
                          @ show_nat (BUILD_TIMEOUT_MS div 1000) @ '' seconds.'')])
         else (ws1, []))
      else (ws, []))"

definition ws_onopen :: "WebSocket \<Rightarrow> WebSocket \<times> Callback list" where
  "ws_onopen ws = (ws\<lparr>sent := sent ws @ [(ws_files ws, ws_token ws)]\<rparr>, [])"

definition ws_onmessage :: "ServerMessage \<Rightarrow> WebSocket \<Rightarrow> WebSocket \<times> Callback list" where
  "ws_onmessage d ws =
     (case d of
        BUILD_LOG None \<Rightarrow> (ws, [])
      | BUILD_LOG (Some line) \<Rightarrow>
          (if str_includes (toLowerCase line) ''error''
           then ws\<lparr>accumulatedErrorLogs := accumulatedErrorLogs ws @ line @ [CHR 0x0A]\<rparr>
           else ws,
           [CB_onProgress line])
      | BUILD_DONE \<Rightarrow>
          (let ws1 = cleanup ws in
           if \<not> completed ws1 then
             (ws_close 1000 ''Build finished successfully.'' (ws1\<lparr>completed := True\<rparr>),
              [CB_onProgress ([CHR 0xE2, CHR 0x9C, CHR 0x85] @ '' Build complete''),
               CB_onComplete])
           else (ws_close 1000 ''Build finished successfully.'' ws1, []))
      | BUILD_ERROR msg \<Rightarrow>
          (let ws1 = cleanup ws in
           if \<not> completed ws1 then
             (ws_close 4001 ''Build failed.'' (ws1\<lparr>completed := True\<rparr>),
              [CB_onError (js_or msg (js_or (accumulatedErrorLogs ws1) ''Unknown build error.''))])
           else (ws_close 4001 ''Build failed.'' ws1, []))
      | OTHER_TYPE \<Rightarrow> (ws, [])
      | MALFORMED raw \<Rightarrow>
          (ws, [CB_onProgress (''Error processing message from server: '' @ raw)]))"

definition ws_onerror :: "WebSocket \<Rightarrow> WebSocket \<times> Callback list" where
  "ws_onerror ws =
     (let ws1 = cleanup ws in
      if \<not> completed ws1 then
        (ws1\<lparr>completed := True\<rparr>,
         [CB_onError ''WebSocket connection failed. Could not connect to the build server.''])
      else (ws1, []))"

definition ws_onclose :: "nat \<Rightarrow> string \<Rightarrow> WebSocket \<Rightarrow> WebSocket \<times> Callback list" where
  "ws_onclose c reason ws =
     (let ws1 = cleanup ws in
      if \<not> completed ws1 \<and> c \<noteq> 1000 then
        (ws1\<lparr>completed := True\<rparr>,
         [CB_onError (''Build connection closed unexpectedly. Code: '' @ show_nat c
                       @ ''. Reason: '' @ js_or reason ''Check server logs.'')])
      else (ws1, []))"

text \<open>
  What the browser delivers to a socket.  The \<open>open\<close> event comes to a connecting socket and
  makes it open; a message is delivered only to an open socket; when the connection ends the
  socket becomes closed, an \<open>error\<close> event may be fired and then the \<open>close\<close> event, once;
  the timer fires once unless it has been cleared.  An event the browser cannot deliver
  leaves the socket as it is and calls nothing.
\<close>

definition ws_dispatch :: "SocketEvent \<Rightarrow> WebSocket \<Rightarrow> WebSocket \<times> Callback list" where
  "ws_dispatch ev ws =
     (case ev of
        EV_open \<Rightarrow>
          if readyState ws = CONNECTING then ws_onopen (ws\<lparr>readyState := OPEN\<rparr>) else (ws, [])
      | EV_message d \<Rightarrow>
          if readyState ws = OPEN then ws_onmessage d ws else (ws, [])
      | EV_error \<Rightarrow>
          if \<not> closeEventFired ws then ws_onerror (ws\<lparr>readyState := CLOSED\<rparr>) else (ws, [])
      | EV_close c reason \<Rightarrow>
          if \<not> closeEventFired ws
          then ws_onclose c reason (ws\<lparr>readyState := CLOSED, closeEventFired := True\<rparr>)
          else (ws, [])
      | EV_timeout \<Rightarrow>
          if timeoutArmed ws then timeoutHandler (ws\<lparr>timeoutArmed := False\<rparr>) else (ws, []))"

text \<open>A sequence of events on one socket, with the callbacks it makes, in order.\<close>

fun ws_run :: "SocketEvent list \<Rightarrow> WebSocket \<Rightarrow> WebSocket \<times> Callback list" where
  "ws_run [] ws = (ws, [])"
| "ws_run (ev # evs) ws =
     (let (ws1, cbs1) = ws_dispatch ev ws; (ws2, cbs2) = ws_run evs ws1 in (ws2, cbs1 @ cbs2))"

definition live :: "WebSocket \<Rightarrow> bool" where
  "live ws = (readyState ws = CONNECTING \<or> readyState ws = OPEN)"

definition isOutcome :: "Callback \<Rightarrow> bool" where
  "isOutcome cb = (case cb of CB_onProgress l \<Rightarrow> False | CB_onComplete \<Rightarrow> True | CB_onError e \<Rightarrow> True)"

subsection \<open>App.tsx: the session state\<close>

text \<open>
  The timers made by \<open>setInterval\<close> and the \<open>EventSource\<close> objects made by
  \<open>streamRuntimeLogs\<close>.  Both are created inside \<open>startBot\<close> with callbacks that call
  \<open>stopBot\<close>; each keeps the value of \<open>runtimeState\<close> that this \<open>stopBot\<close> closure captured.
\<close>

record Interval =
  cleared :: bool
  iv_runtimeState :: BotRuntimeState

record EventSource =
  es_closed :: bool
  es_runtimeState :: BotRuntimeState

text \<open>The requests sent to the collaborators, in the order they are made.\<close>

datatype Call =
  Call_getBotMetadata string
  | Call_extractRequiredSecrets string
  | Call_generateStructure string string
  | Call_generateFileCode string
  | Call_generateSetupFiles
  | Call_debugCode string "GeneratedFile list" string string
  | Call_buildBot "GeneratedFile list" string
  | Call_runBot
  | Call_stopBot

record App =
  prompt :: string
  token :: string
  tokenError :: "string option"
  library :: string
  requiredSecrets :: "RequiredSecret list"
  buildState :: BuildState
  logs :: "LogEntry list"
  generatedFiles :: "GeneratedFile list"
  hasUnrebuiltChanges :: bool
  buildLoopAttempt :: nat
  currentBuildFiles :: "GeneratedFile list"
  lastBuildError :: string
  runtimeState :: BotRuntimeState
  runtimeLogs :: "LogEntry list"
  countdown :: int
  botMetadata :: "BotMetadata option"
  countdownIntervalRef :: "nat option"
  runtimeLogStreamRef :: "nat option"
  sockets :: "WebSocket list"
  intervals :: "Interval list"
  eventSources :: "EventSource list"
  calls :: "Call list"

definition RUNTIME_DURATION_SECONDS :: int where
  "RUNTIME_DURATION_SECONDS = 600"

definition MAX_FIX_ATTEMPTS :: nat where
  "MAX_FIX_ATTEMPTS = 3"

text \<open>The state of a freshly mounted \<open>App\<close>.\<close>

definition initialApp :: App where
  "initialApp =
     \<lparr>prompt = [], token = [], tokenError = None, library = ''python-telegram-bot'',
      requiredSecrets = [], buildState = IDLE, logs = [], generatedFiles = [],
      hasUnrebuiltChanges = False, buildLoopAttempt = 0, currentBuildFiles = [],
      lastBuildError = [], runtimeState = STOPPED, runtimeLogs = [],
      countdown = RUNTIME_DURATION_SECONDS, botMetadata = None, countdownIntervalRef = None,
      runtimeLogStreamRef = None, sockets = [], intervals = [], eventSources = [],
      calls = []\<rparr>"

text \<open>The constants of one render that the handlers below read from their closure.\<close>

record Render =
  r_buildState :: BuildState
  r_logs :: "LogEntry list"
  r_generatedFiles :: "GeneratedFile list"
  r_runtimeState :: BotRuntimeState
  r_hasUnrebuiltChanges :: bool

definition render :: "App \<Rightarrow> Render" where
  "render s =
     \<lparr>r_buildState = buildState s, r_logs = logs s, r_generatedFiles = generatedFiles s,
      r_runtimeState = runtimeState s, r_hasUnrebuiltChanges = hasUnrebuiltChanges s\<rparr>"

definition addLog :: "string \<Rightarrow> LogType \<Rightarrow> App \<Rightarrow> App" where
  "addLog msg t s = s\<lparr>logs := logs s @ [\<lparr>message = msg, type = t\<rparr>]\<rparr>"

definition addRuntimeLog :: "string \<Rightarrow> LogType \<Rightarrow> App \<Rightarrow> App" where
  "addRuntimeLog msg t s = s\<lparr>runtimeLogs := runtimeLogs s @ [\<lparr>message = msg, type = t\<rparr>]\<rparr>"

definition resetBuild :: "App \<Rightarrow> App" where
  "resetBuild s =
     s\<lparr>buildState := IDLE, logs := [], generatedFiles := [], tokenError := None,
       buildLoopAttempt := 0, currentBuildFiles := [], lastBuildError := [],
       requiredSecrets := [], hasUnrebuiltChanges := False\<rparr>"

text \<open>\<open>if (countdownIntervalRef.current) clearInterval(countdownIntervalRef.current)\<close>; the
  reference itself is kept.\<close>

definition clearCountdownInterval :: "App \<Rightarrow> App" where
  "clearCountdownInterval s =
     (case countdownIntervalRef s of
        None \<Rightarrow> s
      | Some i \<Rightarrow> s\<lparr>intervals := (intervals s)[i := (intervals s ! i)\<lparr>cleared := True\<rparr>]\<rparr>)"

text \<open>\<open>if (runtimeLogStreamRef.current) { runtimeLogStreamRef.current.close();
  runtimeLogStreamRef.current = null; }\<close>\<close>

definition closeRuntimeLogStream :: "App \<Rightarrow> App" where
  "closeRuntimeLogStream s =
     (case runtimeLogStreamRef s of
        None \<Rightarrow> s
      | Some i \<Rightarrow>
          s\<lparr>eventSources := (eventSources s)[i := (eventSources s ! i)\<lparr>es_closed := True\<rparr>],
            runtimeLogStreamRef := None\<rparr>)"

definition resetRuntime :: "App \<Rightarrow> App" where
  "resetRuntime s =
     (closeRuntimeLogStream (clearCountdownInterval s))
       \<lparr>runtimeState := STOPPED, runtimeLogs := [], countdown := RUNTIME_DURATION_SECONDS,
        botMetadata := None\<rparr>"

subsection \<open>App.tsx: the runtime session\<close>

text \<open>
  \<open>stopBot\<close>.  The guard reads the \<open>runtimeState\<close> of the closure, here the argument \<open>rs\<close>.
  \<open>stopBot_sync\<close> is the part between the guard and \<open>await backend.stopBot()\<close>,
  \<open>stopBot_cont\<close> the part after it.  The argument \<open>res\<close> is the result of
  \<open>await backend.stopBot()\<close>: \<open>backend.stopBot\<close> only warns on a response that is not ok, and
  it throws when its \<open>fetch\<close> is rejected (\<open>Inl\<close> with the message); nothing catches that, so
  the part after the \<open>await\<close> is then skipped and \<open>stopBot\<close> itself throws.  The result of
  \<open>stopBot\<close> is what its caller gets from \<open>await stopBot()\<close>, with the session state.
  \<open>stopBot\<close> is the handler run without anything else happening during the \<open>await\<close>.
\<close>

definition stopBot_sync :: "App \<Rightarrow> App" where
  "stopBot_sync s =
     (let s1 = addRuntimeLog ''Stopping bot...'' Log s;
          s2 = closeRuntimeLogStream s1;
          s3 = clearCountdownInterval s2
      in s3\<lparr>calls := calls s3 @ [Call_stopBot]\<rparr>)"

definition stopBot_cont :: "App \<Rightarrow> App" where
  "stopBot_cont s = addRuntimeLog ''Bot stopped successfully.'' Log (s\<lparr>runtimeState := STOPPED\<rparr>)"

definition stopBot :: "BotRuntimeState \<Rightarrow> string + unit \<Rightarrow> App \<Rightarrow> (string + unit) \<times> App" where
  "stopBot rs res s =
     (if rs = STOPPED then (Inr (), s)
      else (case res of
              Inl msg \<Rightarrow> (Inl msg, stopBot_sync s)
            | Inr u \<Rightarrow> (Inr (), stopBot_cont (stopBot_sync s))))"

text \<open>
  \<open>startBot\<close>.  \<open>useCallback\<close> re-creates \<open>stopBot\<close> when \<open>runtimeState\<close> changes and
  \<open>startBot\<close> when \<open>runtimeState\<close> or \<open>stopBot\<close> changes, so the \<open>stopBot\<close> that a
  \<open>startBot\<close> closure refers to has captured the same \<open>runtimeState\<close> \<open>rs\<close> as that
  \<open>startBot\<close>.  The stream's error handler and the timer callback made here call this
  \<open>stopBot\<close>.  The argument \<open>r\<close> is the result of \<open>await backend.runBot()\<close>: \<open>Inl\<close> with the
  message when it throws.
\<close>

definition startBot_sync :: "App \<Rightarrow> App" where
  "startBot_sync s =
     (let s1 = addRuntimeLog ''Starting bot session...'' Log
                 (s\<lparr>runtimeState := RUNNING, runtimeLogs := []\<rparr>)
      in s1\<lparr>calls := calls s1 @ [Call_runBot]\<rparr>)"

definition startBot_cont :: "BotRuntimeState \<Rightarrow> string + unit \<Rightarrow> App \<Rightarrow> App" where
  "startBot_cont rs r s =
     (case r of
        Inr u \<Rightarrow>
          (let s1 = addRuntimeLog ''Bot container started successfully.'' Log s;
               s2 = s1\<lparr>eventSources := eventSources s1
                                         @ [\<lparr>es_closed = False, es_runtimeState = rs\<rparr>],
                       runtimeLogStreamRef := Some (length (eventSources s1))\<rparr>;
               s3 = s2\<lparr>countdown := RUNTIME_DURATION_SECONDS\<rparr>
           in s3\<lparr>intervals := intervals s3 @ [\<lparr>cleared = False, iv_runtimeState = rs\<rparr>],
                 countdownIntervalRef := Some (length (intervals s3))\<rparr>)
      | Inl msg \<Rightarrow>
          (addRuntimeLog (''Failed to start bot: '' @ msg) Error s)\<lparr>runtimeState := STOPPED\<rparr>)"

definition startBot :: "BotRuntimeState \<Rightarrow> string + unit \<Rightarrow> App \<Rightarrow> App" where
  "startBot rs r s = (if rs = RUNNING then s else startBot_cont rs r (startBot_sync s))"

text \<open>The callback of the countdown timer:
  \<^verbatim>\<open>setCountdown(c => { if (c <= 1) { stopBot(); return 0; } return c - 1; })\<close>
  The promise of \<open>stopBot()\<close> is dropped; \<open>res\<close> is the result of its stop request.\<close>

definition countdownCallback :: "Interval \<Rightarrow> string + unit \<Rightarrow> App \<Rightarrow> App" where
  "countdownCallback iv res s =
     (if countdown s \<le> 1 then (snd (stopBot (iv_runtimeState iv) res s))\<lparr>countdown := 0\<rparr>
      else s\<lparr>countdown := countdown s - 1\<rparr>)"

text \<open>One second passes: every timer that has not been cleared runs its callback.  \<open>stop\<close>
  gives the result of a stop request, which may depend on how many requests the session has
  made.\<close>

definition fire :: "(nat \<Rightarrow> string + unit) \<Rightarrow> nat \<Rightarrow> App \<Rightarrow> App" where
  "fire stop i s =
     (if i < length (intervals s) \<and> \<not> cleared (intervals s ! i)
      then countdownCallback (intervals s ! i) (stop (length (calls s))) s else s)"

definition tick :: "(nat \<Rightarrow> string + unit) \<Rightarrow> App \<Rightarrow> App" where
  "tick stop s = fold (fire stop) [0..<length (intervals s)] s"

fun ticks :: "(nat \<Rightarrow> string + unit) \<Rightarrow> nat \<Rightarrow> App \<Rightarrow> App" where
  "ticks stop 0 s = s"
| "ticks stop (Suc n) s = ticks stop n (tick stop s)"

text \<open>The handlers given to \<open>streamRuntimeLogs\<close>, for the stream with index \<open>i\<close>.\<close>

definition stream_onLog :: "nat \<Rightarrow> LogEntry \<Rightarrow> App \<Rightarrow> App" where
  "stream_onLog i l s =
     (if i < length (eventSources s) \<and> \<not> es_closed (eventSources s ! i)
      then addRuntimeLog (message l) (type l) s else s)"

definition stream_onError :: "nat \<Rightarrow> string + unit \<Rightarrow> App \<Rightarrow> App" where
  "stream_onError i res s =
     (if i < length (eventSources s) \<and> \<not> es_closed (eventSources s ! i) then
        (let s1 = addRuntimeLog ''Log stream disconnected.'' Error s;
             s2 = snd (stopBot (es_runtimeState (eventSources s1 ! i)) res s1)
         in s2\<lparr>eventSources := (eventSources s2)[i := (eventSources s2 ! i)\<lparr>es_closed := True\<rparr>]\<rparr>)
      else s)"

text \<open>The effect that starts the bot when the build has succeeded:
  \<^verbatim>\<open>if (buildState === 'SUCCESS' && runtimeState !== 'RUNNING') startBot();\<close>\<close>

definition autoStartEffect :: "string + unit \<Rightarrow> App \<Rightarrow> App" where
  "autoStartEffect r s =
     (if buildState s = SUCCESS \<and> runtimeState s \<noteq> RUNNING
      then startBot (runtimeState s) r s else s)"

text \<open>\<open>handleReset\<close>: \<open>await stopBot(); resetBuild(); resetRuntime();\<close>  There is no
  \<open>try\<close>: when \<open>stopBot\<close> throws, the two resets are skipped and the promise of the handler is
  rejected.\<close>

definition handleReset :: "Render \<Rightarrow> string + unit \<Rightarrow> App \<Rightarrow> (string + unit) \<times> App" where
  "handleReset r res s =
     (case stopBot (r_runtimeState r) res s of
        (Inl msg, s1) \<Rightarrow> (Inl msg, s1)
      | (Inr u, s1) \<Rightarrow> (Inr (), resetRuntime (resetBuild s1)))"

subsection \<open>App.tsx: the build and debug loop\<close>

text \<open>
  \<open>runBuildStep\<close> with the synchronous part of \<open>backend.buildBot\<close>: the progress line, the
  new socket and its watchdog.  The socket returned by \<open>buildBot\<close> is not kept.
\<close>

definition buildBot :: "GeneratedFile list \<Rightarrow> string \<Rightarrow> App \<Rightarrow> App" where
  "buildBot files tok s =
     (let s1 = addLog ''Connecting to build server...'' Log s
      in s1\<lparr>sockets := sockets s1 @ [newWebSocket files tok],
            calls := calls s1 @ [Call_buildBot files tok]\<rparr>)"

definition runBuildStep :: "GeneratedFile list \<Rightarrow> App \<Rightarrow> App" where
  "runBuildStep filesToBuild s =
     buildBot filesToBuild (token s)
       (s\<lparr>buildState := BUILDING, currentBuildFiles := filesToBuild\<rparr>)"

text \<open>\<open>runDebugStep\<close> up to \<open>await geminiService.debugCode(...)\<close>.\<close>

definition runDebugStep_sync :: "App \<Rightarrow> App" where
  "runDebugStep_sync s =
     (let s1 = addLog (''AI Debugger (Attempt '' @ show_nat (buildLoopAttempt s) @ ''/''
                        @ show_nat (MAX_FIX_ATTEMPTS - 1) @ ''): Analyzing build error...'') Log
                 (s\<lparr>buildState := DEBUGGING\<rparr>)
      in s1\<lparr>calls := calls s1
              @ [Call_debugCode (prompt s1) (currentBuildFiles s1) (lastBuildError s1) (library s1)]\<rparr>)"

definition handleBuildError :: "string \<Rightarrow> App \<Rightarrow> App" where
  "handleBuildError errorLog s =
     (let s1 = addLog (''Build failed (Attempt '' @ show_nat (buildLoopAttempt s + 1) @ '').'') Error s;
          s2 = addLog errorLog Raw s1;
          s3 = s2\<lparr>lastBuildError := errorLog\<rparr>;
          s4 = s3\<lparr>buildLoopAttempt := buildLoopAttempt s3 + 1\<rparr>
      in if buildLoopAttempt s4 \<ge> MAX_FIX_ATTEMPTS then
           (let s5 = addLog (''Unable to fix the build after '' @ show_nat (MAX_FIX_ATTEMPTS - 1)
                              @ '' attempts.'') Error s4;
                s6 = addLog ''Final build error details:'' Error s5;
                s7 = addLog (lastBuildError s6) Raw s6
            in s7\<lparr>buildState := ERROR\<rparr>)
         else runDebugStep_sync s4)"

text \<open>The \<open>catch\<close> block of \<open>runDebugStep\<close>.\<close>

definition runDebugStep_catch :: "string \<Rightarrow> App \<Rightarrow> App" where
  "runDebugStep_catch msg s = (addLog (''AI Debugger failed: '' @ msg) Error s)\<lparr>buildState := ERROR\<rparr>"

definition applyFixLogged :: "GeneratedFile list \<times> App \<Rightarrow> FixedFile \<Rightarrow> GeneratedFile list \<times> App" where
  "applyFixLogged p fixedFile =
     (applyFix (fst p) fixedFile, addLog (applyFixMessage (fst p) fixedFile) Log (snd p))"

text \<open>
  \<open>runDebugStep\<close> after the \<open>await\<close>; \<open>r\<close> is the result of \<open>debugCode\<close> (\<open>Inl\<close> with the
  message when it throws).  \<open>currentBuildFiles.current\<close> is read here, after the \<open>await\<close>.
\<close>

definition runDebugStep_cont :: "string + DebugResponse \<Rightarrow> App \<Rightarrow> App" where
  "runDebugStep_cont r s =
     (case r of
        Inl msg \<Rightarrow> runDebugStep_catch msg s
      | Inr fixData \<Rightarrow>
          (case fixed_files fixData of
             None \<Rightarrow>
               runDebugStep_catch
                 ''AI could not determine a fix. Please review the build logs above for details.'' s
           | Some fixed \<Rightarrow>
               if length fixed = 0 then
                 runDebugStep_catch
                   ''AI could not determine a fix. Please review the build logs above for details.'' s
               else
                 (let s1 = addLog (''AI has proposed fixes with ''
                                    @ confidence_percent fixData
                                    @ ''% confidence. Applying changes...'') Log s;
                      p = foldl applyFixLogged (currentBuildFiles s1, s1) fixed;
                      s2 = (if hasUpdatedRequirements (updated_requirements fixData)
                               \<and> findIndex (\<lambda>f. name f = ''requirements.txt'') (fst p) \<noteq> None
                            then addLog (''- Updating requirements.txt with: ''
                                          @ join '', '' (the (updated_requirements fixData))) Log (snd p)
                            else snd p);
                      updatedFiles = updateRequirements (updated_requirements fixData) (fst p);
                      s3 = s2\<lparr>generatedFiles := updatedFiles\<rparr>;
                      s4 = addLog ''Fixes applied. Retrying build...'' Log s3
                  in runBuildStep updatedFiles s4)))"

text \<open>The three callbacks that \<open>runBuildStep\<close> gives to \<open>buildBot\<close>.\<close>

definition appCallback :: "Callback \<Rightarrow> App \<Rightarrow> App" where
  "appCallback cb s =
     (case cb of
        CB_onProgress l \<Rightarrow> addLog l Log s
      | CB_onComplete \<Rightarrow> s\<lparr>buildState := SUCCESS, hasUnrebuiltChanges := False\<rparr>
      | CB_onError errorLog \<Rightarrow> handleBuildError errorLog s)"

text \<open>An event on the socket with index \<open>i\<close>: the client's handler runs and its callbacks
  act on the session.\<close>

definition socketEvent :: "nat \<Rightarrow> SocketEvent \<Rightarrow> App \<Rightarrow> App" where
  "socketEvent i ev s =
     (if i < length (sockets s) then
        (let p = ws_dispatch ev (sockets s ! i)
         in fold appCallback (snd p) (s\<lparr>sockets := (sockets s)[i := fst p]\<rparr>))
      else s)"

definition socketEvents :: "nat \<Rightarrow> SocketEvent list \<Rightarrow> App \<Rightarrow> App" where
  "socketEvents i evs s = fold (socketEvent i) evs s"

subsection \<open>App.tsx: edit, rebuild and clearing the log\<close>

definition handleFileUpdate :: "string \<Rightarrow> string \<Rightarrow> App \<Rightarrow> App" where
  "handleFileUpdate fileName newCode s =
     addLog (''Saved changes to '' @ fileName @ ''. Click '' @ [CHR 0x27] @ ''Rebuild''
              @ [CHR 0x27] @ '' to apply them.'') Log
       (s\<lparr>generatedFiles :=
             map (\<lambda>f. if name f = fileName then f\<lparr>code := newCode\<rparr> else f) (generatedFiles s),
           hasUnrebuiltChanges := True\<rparr>)"

text \<open>The sentinel search of \<open>handleRebuild\<close> and \<open>onClearLogs\<close>:
  \<^verbatim>\<open>logs.findIndex(l => l.message.includes('Connecting to build server'))\<close>\<close>

definition mentionsBuildServer :: "LogEntry \<Rightarrow> bool" where
  "mentionsBuildServer l = str_includes (message l) ''Connecting to build server''"

definition firstBuildLogIndex :: "LogEntry list \<Rightarrow> nat option" where
  "firstBuildLogIndex ls = findIndex mentionsBuildServer ls"

text \<open>
  \<open>handleRebuild\<close>.  \<open>runtimeState\<close>, \<open>logs\<close> and \<open>generatedFiles\<close> are those of the render \<open>r\<close>,
  and so is the \<open>stopBot\<close> it calls; \<open>setLogs\<close> gets an updater, which works on the log of the
  moment.  \<open>res\<close> is the result of the stop request, when one is made.  There is no \<open>try\<close>:
  when \<open>stopBot\<close> throws, the rest of the handler is skipped.  \<open>handleRebuild_sync\<close> is the
  part up to \<open>await stopBot()\<close> with the part of \<open>stopBot\<close> that runs at once, and
  \<open>handleRebuild_cont\<close> is the part after the \<open>await\<close>: the two are what runs when other
  events come in between.
\<close>

definition handleRebuild_sync :: "Render \<Rightarrow> App \<Rightarrow> App" where
  "handleRebuild_sync r s =
     (let s1 = addLog ''Rebuilding bot with your changes...'' Log s
      in if r_runtimeState r \<noteq> STOPPED then stopBot_sync s1 else s1)"

definition handleRebuild_cont :: "Render \<Rightarrow> App \<Rightarrow> App" where
  "handleRebuild_cont r s =
     (let s1 = resetRuntime s;
          s2 = s1\<lparr>logs := (case firstBuildLogIndex (r_logs r) of
                               Some i \<Rightarrow> take i (logs s1)
                             | None \<Rightarrow> take (length (logs s1)) (logs s1))\<rparr>;
          s3 = s2\<lparr>buildLoopAttempt := 0, lastBuildError := []\<rparr>
      in runBuildStep (r_generatedFiles r) s3)"

definition handleRebuild :: "Render \<Rightarrow> string + unit \<Rightarrow> App \<Rightarrow> (string + unit) \<times> App" where
  "handleRebuild r res s =
     (let s1 = addLog ''Rebuilding bot with your changes...'' Log s
      in if r_runtimeState r \<noteq> STOPPED then
           (case stopBot (r_runtimeState r) res s1 of
              (Inl msg, s2) \<Rightarrow> (Inl msg, s2)
            | (Inr u, s2) \<Rightarrow> (Inr (), handleRebuild_cont r s2))
         else (Inr (), handleRebuild_cont r s1))"

text \<open>The \<open>onClearLogs\<close> handler given to \<open>BotRunner\<close>; \<open>buildState\<close> and \<open>logs\<close> are those of
  the render.\<close>

definition onClearLogs :: "Render \<Rightarrow> App \<Rightarrow> App" where
  "onClearLogs r s =
     (if r_buildState r = ERROR then
        (case firstBuildLogIndex (r_logs r) of
           Some i \<Rightarrow> s\<lparr>logs := take i (r_logs r)\<rparr>
         | None \<Rightarrow> s\<lparr>logs := []\<rparr>)
      else s\<lparr>runtimeLogs := []\<rparr>)"

text \<open>
  \<open>BotRunner\<close> is rendered when \<open>buildState\<close> is \<open>SUCCESS\<close> or \<open>ERROR\<close>, and its Rebuild
  button has \<open>disabled={!hasUnrebuiltChanges}\<close> in both layouts.  A click on the button
  calls the \<open>handleRebuild\<close> of the current render (\<open>res\<close> is the result of its stop
  request) and a click on Reset the \<open>handleReset\<close>; the promise of the handler is dropped.
  A click on Clear calls \<open>onClearLogs\<close>.
\<close>

definition botRunnerShown :: "App \<Rightarrow> bool" where
  "botRunnerShown s = (buildState s = SUCCESS \<or> buildState s = ERROR)"

definition rebuildDisabled :: "App \<Rightarrow> bool" where
  "rebuildDisabled s = (\<not> hasUnrebuiltChanges s)"

definition rebuildAvailable :: "App \<Rightarrow> bool" where
  "rebuildAvailable s = (if botRunnerShown s then \<not> rebuildDisabled s else False)"

definition clickRebuild :: "string + unit \<Rightarrow> App \<Rightarrow> App" where
  "clickRebuild res s = (if rebuildAvailable s then snd (handleRebuild (render s) res s) else s)"

definition clickReset :: "string + unit \<Rightarrow> App \<Rightarrow> App" where
  "clickReset res s = (if botRunnerShown s then snd (handleReset (render s) res s) else s)"

definition clickClear :: "App \<Rightarrow> App" where
  "clickClear s = (if botRunnerShown s then onClearLogs (render s) s else s)"

text \<open>The editor is shown for a file of the file set; saving calls \<open>handleFileUpdate\<close>.\<close>

definition saveFile :: "string \<Rightarrow> string \<Rightarrow> App \<Rightarrow> App" where
  "saveFile fileName newCode s =
     (if botRunnerShown s \<and> fileName \<in> set (map name (generatedFiles s))
      then handleFileUpdate fileName newCode s else s)"

subsection \<open>The collaborators and the code generation\<close>

text \<open>The response types of geminiService.ts.\<close>

record StructureFile =
  sf_name :: string
  purpose :: string
  is_required :: bool

record BotStructure =
  st_files :: "StructureFile list"
  requirements :: "string list"
  run_cmd :: string
  docker_entry :: "string list"
  estimated_complexity :: string

record FileCodeResponse =
  file_name :: string
  fc_code :: string
  fc_notes :: string

record SetupFilesResponse =
  requirements_txt :: string
  dockerfile :: string
  docker_compose_yml :: string
  readme_md :: string

text \<open>
  The services outside the session.  Each answer may depend on how many requests the session
  has made and on the arguments of the request; \<open>Inl\<close> is a thrown error with its message.
  \<open>buildEvents\<close> is what the build executor, the transport and the watchdog make happen on
  the socket of a build request: the events of that socket, in order.
\<close>

record Collaborators =
  getBotMetadata :: "nat \<Rightarrow> string \<Rightarrow> string + BotMetadata"
  extractRequiredSecrets :: "nat \<Rightarrow> string \<Rightarrow> string + RequiredSecret list option"
  generateStructure :: "nat \<Rightarrow> string \<Rightarrow> string \<Rightarrow> string + BotStructure"
  generateFileCode ::
    "nat \<Rightarrow> string \<Rightarrow> BotStructure \<Rightarrow> StructureFile \<Rightarrow> string \<Rightarrow> string list
       \<Rightarrow> string + FileCodeResponse"
  generateSetupFiles ::
    "nat \<Rightarrow> string \<Rightarrow> BotStructure \<Rightarrow> string \<Rightarrow> string list \<Rightarrow> string + SetupFilesResponse"
  debugCode ::
    "nat \<Rightarrow> string \<Rightarrow> GeneratedFile list \<Rightarrow> string \<Rightarrow> string \<Rightarrow> string + DebugResponse"
  buildEvents :: "nat \<Rightarrow> GeneratedFile list \<Rightarrow> SocketEvent list"
  runBot :: "nat \<Rightarrow> string + unit"

text \<open>The \<open>for\<close> loop of \<open>startCodeGeneration\<close> over \<open>structure.files\<close>, with the local array
  \<open>filesToBuild\<close>; it stops at the first call that throws.\<close>

fun generateFiles ::
  "Collaborators \<Rightarrow> BotStructure \<Rightarrow> (string \<times> string) list \<Rightarrow> StructureFile list
     \<Rightarrow> GeneratedFile list \<Rightarrow> App \<Rightarrow> (string + GeneratedFile list) \<times> App" where
  "generateFiles c structure userSecrets [] filesToBuild s = (Inr filesToBuild, s)"
| "generateFiles c structure userSecrets (file # rest) filesToBuild s =
     (let s1 = s\<lparr>calls := calls s @ [Call_generateFileCode (sf_name file)]\<rparr>
      in case generateFileCode c (length (calls s)) (prompt s) structure file (library s)
                (map fst userSecrets) of
           Inl msg \<Rightarrow> (Inl msg, s1)
         | Inr fileCode \<Rightarrow>
             (let newFile = \<lparr>name = file_name fileCode, code = fc_code fileCode\<rparr>;
                  s2 = s1\<lparr>generatedFiles := generatedFiles s1 @ [newFile]\<rparr>;
                  s3 = addLog (''- Generating code for '' @ name newFile) Log s2
              in generateFiles c structure userSecrets rest (filesToBuild @ [newFile]) s3))"

definition startCodeGeneration_catch :: "string \<Rightarrow> App \<Rightarrow> App" where
  "startCodeGeneration_catch msg s =
     (addLog (''Failed during code generation: '' @ msg) Error s)\<lparr>buildState := ERROR\<rparr>"

definition startCodeGeneration :: "Collaborators \<Rightarrow> (string \<times> string) list \<Rightarrow> App \<Rightarrow> App" where
  "startCodeGeneration c userSecrets s =
     (let s1 = s\<lparr>buildState := PLANNING, buildLoopAttempt := 0, lastBuildError := []\<rparr>;
          s2 = addLog ''Analyzing requirements and planning bot structure...'' Log s1;
          s3 = s2\<lparr>calls := calls s2 @ [Call_generateStructure (prompt s2) (library s2)]\<rparr>
      in case generateStructure c (length (calls s2)) (prompt s2) (library s2) of
           Inl msg \<Rightarrow> startCodeGeneration_catch msg s3
         | Inr structure \<Rightarrow>
             (let s4 = addLog ''Bot structure planned successfully.'' Log s3;
                  s5 = s4\<lparr>buildState := CODING\<rparr>;
                  s6 = addLog (''Found '' @ show_nat (length (st_files structure))
                                @ '' files to generate.'') Log s5
              in case generateFiles c structure userSecrets (st_files structure) [] s6 of
                   (Inl msg, s7) \<Rightarrow> startCodeGeneration_catch msg s7
                 | (Inr filesToBuild, s7) \<Rightarrow>
                     (let s8 = addLog ''Generating setup files...'' Log s7;
                          s9 = s8\<lparr>calls := calls s8 @ [Call_generateSetupFiles]\<rparr>
                      in case generateSetupFiles c (length (calls s8)) (prompt s8) structure
                                (library s8) (map fst userSecrets) of
                           Inl msg \<Rightarrow> startCodeGeneration_catch msg s9
                         | Inr setupFiles \<Rightarrow>
                             (let setupFilesData =
                                    [\<lparr>name = ''requirements.txt'', code = requirements_txt setupFiles\<rparr>,
                                     \<lparr>name = ''Dockerfile'', code = dockerfile setupFiles\<rparr>,
                                     \<lparr>name = ''docker-compose.yml'',
                                      code = docker_compose_yml setupFiles\<rparr>,
                                     \<lparr>name = ''README.md'', code = readme_md setupFiles\<rparr>];
                                  s10 = s9\<lparr>generatedFiles := generatedFiles s9 @ setupFilesData\<rparr>;
                                  s11 = addLog ''All files generated.'' Log s10
                              in runBuildStep (filesToBuild @ setupFilesData) s11))))"

definition handleStartConfiguration :: "Collaborators \<Rightarrow> App \<Rightarrow> App" where
  "handleStartConfiguration c s =
     (if prompt s = [] \<or> token s = [] then addLog ''Prompt and token are required.'' Error s
      else
        (let s1 = resetRuntime (resetBuild s);
             s2 = addLog ''Starting build process...'' Log s1;
             s3 = addLog ''Validating Telegram token...'' Log (s2\<lparr>buildState := VALIDATING\<rparr>);
             s4 = s3\<lparr>calls := calls s3 @ [Call_getBotMetadata (token s3)]\<rparr>
         in case getBotMetadata c (length (calls s3)) (token s3) of
              Inl msg \<Rightarrow>
                (let errorMessage = js_or msg ''An unknown error occurred during token validation.''
                 in (addLog (''Token validation failed: '' @ errorMessage) Error s4)
                      \<lparr>tokenError := Some errorMessage, buildState := IDLE\<rparr>)
            | Inr meta \<Rightarrow>
                (let s5 = addLog ''Token validated successfully.'' Log (s4\<lparr>botMetadata := Some meta\<rparr>);
                     s6 = addLog ''Analyzing prompt for additional configuration...'' Log s5;
                     s7 = s6\<lparr>calls := calls s6 @ [Call_extractRequiredSecrets (prompt s6)]\<rparr>
                 in case extractRequiredSecrets c (length (calls s6)) (prompt s6) of
                      Inl msg \<Rightarrow>
                        (addLog (''Failed during configuration analysis: '' @ msg) Error s7)
                          \<lparr>buildState := ERROR\<rparr>
                    | Inr secrets \<Rightarrow>
                        (case secrets of
                           None \<Rightarrow>
                             startCodeGeneration c []
                               (addLog (''No additional configuration required. ''
                                         @ ''Starting code generation...'') Log s7)
                         | Some ss \<Rightarrow>
                             if 0 < length ss then
                               (addLog (''Found '' @ show_nat (length ss)
                                         @ '' additional configuration(s) required.'') Log s7)
                                 \<lparr>requiredSecrets := ss, buildState := GATHERING_CONFIG\<rparr>
                             else
                               startCodeGeneration c []
                                 (addLog (''No additional configuration required. ''
                                           @ ''Starting code generation...'') Log s7)))))"

definition handleSecretsSubmitted :: "Collaborators \<Rightarrow> (string \<times> string) list \<Rightarrow> App \<Rightarrow> App" where
  "handleSecretsSubmitted c secrets s =
     startCodeGeneration c secrets
       (addLog ''Configuration received. Starting code generation...'' Log s)"

subsection \<open>Running the build and debug loop to its end\<close>

text \<open>
  The session is in \<open>BUILDING\<close> and the socket of the last build request is the newest one.
  The loop delivers the events of that socket; when the session has gone to \<open>DEBUGGING\<close> it
  hands the answer of the pending repair request to the continuation of \<open>runDebugStep\<close>; it
  goes on while that continuation has made a new build request.
\<close>

definition newestSocket :: "App \<Rightarrow> nat" where
  "newestSocket s = length (sockets s) - 1"

function buildLoop :: "Collaborators \<Rightarrow> App \<Rightarrow> App" where
  "buildLoop c s =
     (let s1 = socketEvents (newestSocket s)
                 (buildEvents c (length (calls s)) (currentBuildFiles s)) s
      in if buildState s1 = DEBUGGING then
           (let s2 = runDebugStep_cont
                       (debugCode c (length (calls s1)) (prompt s1) (currentBuildFiles s1)
                          (lastBuildError s1) (library s1)) s1
            in if buildState s2 = BUILDING then buildLoop c s2 else s2)
         else s1)"
  by pat_completeness auto

text \<open>The loop ends.  Along the callbacks of a socket the attempt counter never decreases, and
  a session that comes to \<open>DEBUGGING\<close> has had its counter increased to a value below
  \<open>MAX_FIX_ATTEMPTS\<close> (unless it has been in \<open>DEBUGGING\<close> all along).\<close>

definition advances :: "App \<Rightarrow> App \<Rightarrow> bool" where
  "advances s t =
     (buildLoopAttempt s \<le> buildLoopAttempt t
      \<and> (if buildState t = DEBUGGING
         then (buildLoopAttempt t < MAX_FIX_ATTEMPTS \<and> buildLoopAttempt s < buildLoopAttempt t)
              \<or> (buildState s = DEBUGGING \<and> buildLoopAttempt t = buildLoopAttempt s)
         else True))"

lemma addLog_fields [simp]:
  "buildState (addLog m t s) = buildState s"
  "buildLoopAttempt (addLog m t s) = buildLoopAttempt s"
  "calls (addLog m t s) = calls s"
  "sockets (addLog m t s) = sockets s"
  "currentBuildFiles (addLog m t s) = currentBuildFiles s"
  "lastBuildError (addLog m t s) = lastBuildError s"
  "prompt (addLog m t s) = prompt s"
  "library (addLog m t s) = library s"
  "token (addLog m t s) = token s"
  "hasUnrebuiltChanges (addLog m t s) = hasUnrebuiltChanges s"
  "generatedFiles (addLog m t s) = generatedFiles s"
  "runtimeState (addLog m t s) = runtimeState s"
  "runtimeLogs (addLog m t s) = runtimeLogs s"
  "countdown (addLog m t s) = countdown s"
  "intervals (addLog m t s) = intervals s"
  "logs (addLog m t s) = logs s @ [\<lparr>message = m, type = t\<rparr>]"
  by (simp_all add: addLog_def)

lemma runBuildStep_fields:
  "buildState (runBuildStep fs s) = BUILDING"
  "buildLoopAttempt (runBuildStep fs s) = buildLoopAttempt s"
  "calls (runBuildStep fs s) = calls s @ [Call_buildBot fs (token s)]"
  "sockets (runBuildStep fs s) = sockets s @ [newWebSocket fs (token s)]"
  "currentBuildFiles (runBuildStep fs s) = fs"
  by (simp_all add: runBuildStep_def buildBot_def Let_def)

lemma runDebugStep_sync_fields:
  "buildState (runDebugStep_sync s) = DEBUGGING"
  "buildLoopAttempt (runDebugStep_sync s) = buildLoopAttempt s"
  "calls (runDebugStep_sync s) = calls s @ [Call_debugCode (prompt s) (currentBuildFiles s) (lastBuildError s) (library s)]"
  "sockets (runDebugStep_sync s) = sockets s"
  by (simp_all add: runDebugStep_sync_def Let_def)

lemma handleBuildError_attempt:
  "buildLoopAttempt (handleBuildError e s) = buildLoopAttempt s + 1"
  by (simp add: handleBuildError_def Let_def runDebugStep_sync_fields)

lemma handleBuildError_state:
  "buildState (handleBuildError e s) = (if MAX_FIX_ATTEMPTS \<le> buildLoopAttempt s + 1 then ERROR else DEBUGGING)"
  by (simp add: handleBuildError_def Let_def runDebugStep_sync_fields)

lemma foldl_applyFixLogged_snd:
  "\<exists>ms. snd (foldl applyFixLogged p fixed) = (snd p)\<lparr>logs := logs (snd p) @ ms\<rparr>"
proof (induction fixed arbitrary: p)
  case Nil
  have "snd p = (snd p)\<lparr>logs := logs (snd p) @ []\<rparr>" by simp
  then show ?case by (metis foldl_Nil)
next
  case (Cons f fixed)
  from Cons.IH [of "applyFixLogged p f"] obtain ms where
    "snd (foldl applyFixLogged (applyFixLogged p f) fixed)
       = (snd (applyFixLogged p f))\<lparr>logs := logs (snd (applyFixLogged p f)) @ ms\<rparr>" by blast
  then have "snd (foldl applyFixLogged p (f # fixed))
       = (snd p)\<lparr>logs := logs (snd p) @ (\<lparr>message = applyFixMessage (fst p) f, type = Log\<rparr> # ms)\<rparr>"
    by (simp add: applyFixLogged_def addLog_def)
  then show ?case by blast
qed

lemma foldl_applyFixLogged_fields:
  "calls (snd (foldl applyFixLogged p fixed)) = calls (snd p)"
  "sockets (snd (foldl applyFixLogged p fixed)) = sockets (snd p)"
  "token (snd (foldl applyFixLogged p fixed)) = token (snd p)"
  "buildLoopAttempt (snd (foldl applyFixLogged p fixed)) = buildLoopAttempt (snd p)"
  "hasUnrebuiltChanges (snd (foldl applyFixLogged p fixed)) = hasUnrebuiltChanges (snd p)"
proof -
  obtain ms where "snd (foldl applyFixLogged p fixed) = (snd p)\<lparr>logs := logs (snd p) @ ms\<rparr>"
    using foldl_applyFixLogged_snd by blast
  then show "calls (snd (foldl applyFixLogged p fixed)) = calls (snd p)"
    and "sockets (snd (foldl applyFixLogged p fixed)) = sockets (snd p)"
    and "token (snd (foldl applyFixLogged p fixed)) = token (snd p)"
    and "buildLoopAttempt (snd (foldl applyFixLogged p fixed)) = buildLoopAttempt (snd p)"
    and "hasUnrebuiltChanges (snd (foldl applyFixLogged p fixed)) = hasUnrebuiltChanges (snd p)"
    by simp_all
qed

lemma runDebugStep_cont_attempt:
  "buildLoopAttempt (runDebugStep_cont r s) = buildLoopAttempt s"
  by (simp add: runDebugStep_cont_def runDebugStep_catch_def Let_def runBuildStep_fields
      foldl_applyFixLogged_fields split: sum.splits option.splits)

lemma advances_refl: "advances s s"
  by (simp add: advances_def)

lemma advances_trans: "advances s t \<Longrightarrow> advances t u \<Longrightarrow> advances s u"
  by (auto simp: advances_def split: if_splits)

lemma advances_appCallback: "advances s (appCallback cb s)"
  by (cases cb) (auto simp: advances_def appCallback_def handleBuildError_attempt handleBuildError_state)

lemma advances_sockets: "advances s (s\<lparr>sockets := x\<rparr>)"
  by (simp add: advances_def)

lemma advances_fold_appCallback: "advances s (fold appCallback cbs s)"
proof (induction cbs arbitrary: s)
  case Nil
  show ?case by (simp add: advances_refl)
next
  case (Cons cb cbs)
  from advances_trans [OF advances_appCallback Cons.IH]
  show ?case by simp
qed

lemma advances_socketEvent: "advances s (socketEvent i ev s)"
  unfolding socketEvent_def Let_def
  using advances_trans [OF advances_sockets advances_fold_appCallback]
  by (simp add: advances_refl)

lemma advances_socketEvents: "advances s (socketEvents i evs s)"
  unfolding socketEvents_def
proof (induction evs arbitrary: s)
  case Nil
  show ?case by (simp add: advances_refl)
next
  case (Cons ev evs)
  from advances_trans [OF advances_socketEvent Cons.IH]
  show ?case by simp
qed

termination buildLoop
proof (relation "measures [\<lambda>(c, s). MAX_FIX_ATTEMPTS - buildLoopAttempt s,
                           \<lambda>(c, s). if buildState s = BUILDING then 0 else 1]")
  show "wf (measures [\<lambda>(c, s). MAX_FIX_ATTEMPTS - buildLoopAttempt s,
                      \<lambda>(c, s). if buildState s = BUILDING then 0 else 1])"
    by simp
next
  fix c s s1 s2
  assume s1: "s1 = socketEvents (newestSocket s)
                 (buildEvents c (length (calls s)) (currentBuildFiles s)) s"
    and d: "buildState s1 = DEBUGGING"
    and s2: "s2 = runDebugStep_cont (debugCode c (length (calls s1)) (prompt s1) (currentBuildFiles s1) (lastBuildError s1) (library s1)) s1"
    and b: "buildState s2 = BUILDING"
  have a: "advances s s1" unfolding s1 by (rule advances_socketEvents)
  have e: "buildLoopAttempt s2 = buildLoopAttempt s1"
    by (simp add: s2 runDebugStep_cont_attempt)
  from a d consider
    (inc) "buildLoopAttempt s1 < MAX_FIX_ATTEMPTS" "buildLoopAttempt s < buildLoopAttempt s1"
    | (same) "buildState s = DEBUGGING" "buildLoopAttempt s1 = buildLoopAttempt s"
    by (auto simp: advances_def)
  then show "((c, s2), (c, s)) \<in> measures [\<lambda>(c, s). MAX_FIX_ATTEMPTS - buildLoopAttempt s,
                           \<lambda>(c, s). if buildState s = BUILDING then 0 else 1]"
  proof cases
    case inc
    then have "MAX_FIX_ATTEMPTS - buildLoopAttempt s1 < MAX_FIX_ATTEMPTS - buildLoopAttempt s"
      by arith
    with e show ?thesis by simp
  next
    case same
    with e b show ?thesis by simp
  qed
qed

declare buildLoop.simps [simp del]

subsection \<open>Notions for the properties and example sessions\<close>

text \<open>Build attempts and repair invocations are counted in the sequence of requests.
  \<open>reportedOutcome\<close> is what the build client reports for the events of a build request: the
  calls of \<open>onComplete\<close> and \<open>onError\<close>.  \<open>awaitingBuild\<close>: the newest socket is the
  untouched socket of the current build request.  \<open>core\<close> forgets the build log.\<close>

definition awaitingBuild :: "App \<Rightarrow> bool" where
  "awaitingBuild s =
     (sockets s \<noteq> [] \<and> last (sockets s) = newWebSocket (currentBuildFiles s) (token s))"

definition isBuildCall :: "Call \<Rightarrow> bool" where
  "isBuildCall k = (case k of Call_buildBot fs t \<Rightarrow> True | _ \<Rightarrow> False)"

definition isDebugCall :: "Call \<Rightarrow> bool" where
  "isDebugCall k = (case k of Call_debugCode p fs e l \<Rightarrow> True | _ \<Rightarrow> False)"

definition buildAttempts :: "App \<Rightarrow> nat" where
  "buildAttempts s = length (filter isBuildCall (calls s))"

definition debugInvocations :: "App \<Rightarrow> nat" where
  "debugInvocations s = length (filter isDebugCall (calls s))"

definition reportedOutcome :: "SocketEvent list \<Rightarrow> GeneratedFile list \<Rightarrow> string \<Rightarrow> Callback list" where
  "reportedOutcome evs files tok = filter isOutcome (snd (ws_run evs (newWebSocket files tok)))"

definition core :: "App \<Rightarrow> App" where
  "core s = s\<lparr>logs := []\<rparr>"

text \<open>Two scripts of a build executor: a progress line, then \<open>BUILD_ERROR\<close> and the close
  with code 4001; a progress line, then \<open>BUILD_DONE\<close> and the close with code 1000.\<close>

definition buildFailsScript :: "SocketEvent list" where
  "buildFailsScript =
     [EV_open, EV_message (BUILD_LOG (Some ''Step 1/6 : FROM python:3.12-slim'')),
      EV_message (BUILD_ERROR ''boom''), EV_close 4001 ''Build failed.'']"

definition buildSucceedsScript :: "SocketEvent list" where
  "buildSucceedsScript =
     [EV_open, EV_message (BUILD_LOG (Some ''Step 1/6 : FROM python:3.12-slim'')),
      EV_message BUILD_DONE, EV_close 1000 ''Build finished successfully.'']"

text \<open>Collaborators and sessions for the examples.  \<open>failingExecutor\<close>: no plan can be
  generated, every build fails and every repair request returns a patch.  \<open>throwingDebugger\<close>:
  the same with a repair service that throws.  \<open>echoBot\<close>: generation succeeds with one file
  \<open>main.py\<close>, every build fails, every repair request returns a patch.  \<open>echoSession\<close> is
  a fresh \<open>App\<close> with the form filled in, and \<open>failedBuildSession\<close> is that session after
  the start button and the whole build and debug loop.\<close>

definition failingExecutor :: Collaborators where
  "failingExecutor =
     \<lparr>getBotMetadata = (\<lambda>n t. Inr \<lparr>username = ''echo_bot'', bot_id = 1\<rparr>),
      extractRequiredSecrets = (\<lambda>n p. Inr (Some [])),
      generateStructure = (\<lambda>n p l. Inl ''no plan''),
      generateFileCode = (\<lambda>n p st f l ks. Inl ''no code''),
      generateSetupFiles = (\<lambda>n p st l ks. Inl ''no setup''),
      debugCode = (\<lambda>n p fs e l.
         Inr \<lparr>fixed_files = Some [\<lparr>name = ''main.py'', code = ''pass'', changes_summary = ''fix''\<rparr>],
              updated_requirements = None, retry_cmd = [], confidence_percent = ''90''\<rparr>),
      buildEvents = (\<lambda>n fs. buildFailsScript),
      runBot = (\<lambda>n. Inr ())\<rparr>"

definition throwingDebugger :: Collaborators where
  "throwingDebugger = failingExecutor\<lparr>debugCode := (\<lambda>n p fs e l. Inl ''quota exceeded'')\<rparr>"

definition echoBot :: Collaborators where
  "echoBot =
     \<lparr>getBotMetadata = (\<lambda>n t. Inr \<lparr>username = ''echo_bot'', bot_id = 1\<rparr>),
      extractRequiredSecrets = (\<lambda>n p. Inr (Some [])),
      generateStructure = (\<lambda>n p l.
         Inr \<lparr>st_files = [\<lparr>sf_name = ''main.py'', purpose = ''entry point'', is_required = True\<rparr>],
              requirements = [''aiogram''], run_cmd = ''python main.py'',
              docker_entry = [''python'', ''main.py''], estimated_complexity = ''low''\<rparr>),
      generateFileCode = (\<lambda>n p st f l ks.
         Inr \<lparr>file_name = sf_name f, fc_code = ''print(1)'', fc_notes = []\<rparr>),
      generateSetupFiles = (\<lambda>n p st l ks.
         Inr \<lparr>requirements_txt = ''aiogram==3.1'', dockerfile = ''FROM python:3.12-slim'',
              docker_compose_yml = ''services:'', readme_md = ''# bot''\<rparr>),
      debugCode = (\<lambda>n p fs e l.
         Inr \<lparr>fixed_files = Some [\<lparr>name = ''main.py'', code = ''pass'', changes_summary = ''fix''\<rparr>],
              updated_requirements = None, retry_cmd = [], confidence_percent = ''90''\<rparr>),
      buildEvents = (\<lambda>n fs. buildFailsScript),
      runBot = (\<lambda>n. Inr ())\<rparr>"

definition echoSession :: App where
  "echoSession = initialApp\<lparr>prompt := ''echo bot'', token := ''123:abc'', library := ''aiogram''\<rparr>"

definition failedBuildSession :: App where
  "failedBuildSession = buildLoop echoBot (handleStartConfiguration echoBot echoSession)"

text \<open>\<open>setupFails\<close>: generation succeeds for \<open>main.py\<close> and throws for the setup files.
  \<open>sentinelNamed\<close>: the plan names its one file \<open>Connecting to build server.py\<close>.
  \<open>connectingEntry\<close> is the log entry that \<open>buildBot\<close> writes first, and \<open>smallErrorSession\<close>
  a session in \<open>ERROR\<close> with one generation entry and two build entries.\<close>

definition setupFails :: Collaborators where
  "setupFails = echoBot\<lparr>generateSetupFiles := (\<lambda>n p st l ks. Inl ''no setup'')\<rparr>"

definition sentinelNamed :: Collaborators where
  "sentinelNamed = echoBot\<lparr>generateStructure := (\<lambda>n p l.
         Inr \<lparr>st_files = [\<lparr>sf_name = ''Connecting to build server.py'', purpose = ''client'',
                           is_required = True\<rparr>],
              requirements = [''aiogram''], run_cmd = ''python main.py'',
              docker_entry = [''python'', ''main.py''], estimated_complexity = ''low''\<rparr>)\<rparr>"

definition connectingEntry :: LogEntry where
  "connectingEntry = \<lparr>message = ''Connecting to build server...'', type = Log\<rparr>"

definition smallErrorSession :: App where
  "smallErrorSession =
     initialApp\<lparr>buildState := ERROR, hasUnrebuiltChanges := True,
       logs := [\<lparr>message = ''All files generated.'', type = Log\<rparr>,
                \<lparr>message = ''Connecting to build server...'', type = Log\<rparr>,
                \<lparr>message = ''Build failed (Attempt 1).'', type = Error\<rparr>]\<rparr>"

text \<open>\<open>okBot\<close>: as \<open>echoBot\<close>, with builds that succeed.  \<open>successSession\<close> is
  \<open>echoSession\<close> after the start button and the build, \<open>runningSession\<close> the same after the
  effect that starts the bot.  \<open>stopTransitions stop n s\<close> counts, over the first \<open>n\<close>
  seconds after \<open>s\<close>, the seconds in which the runtime state goes from \<open>RUNNING\<close> to
  \<open>STOPPED\<close>.
  \<open>staleTimers\<close>: every timer calls a \<open>stopBot\<close> that has captured \<open>STOPPED\<close>.\<close>

definition okBot :: Collaborators where
  "okBot = echoBot\<lparr>buildEvents := (\<lambda>n fs. buildSucceedsScript)\<rparr>"

definition successSession :: App where
  "successSession = buildLoop okBot (handleStartConfiguration okBot echoSession)"

definition runningSession :: App where
  "runningSession = autoStartEffect (runBot okBot (length (calls successSession))) successSession"

definition stopTransitions :: "(nat \<Rightarrow> string + unit) \<Rightarrow> nat \<Rightarrow> App \<Rightarrow> nat" where
  "stopTransitions stop n s =
     length (filter (\<lambda>k. runtimeState (ticks stop k s) = RUNNING
                          \<and> runtimeState (ticks stop (Suc k) s) = STOPPED)
               [0..<n])"

definition staleTimers :: "App \<Rightarrow> bool" where
  "staleTimers s = list_all (\<lambda>iv. iv_runtimeState iv = STOPPED) (intervals s)"

text \<open>\<open>follows s t\<close>: the build log of \<open>t\<close> extends that of \<open>s\<close>, and \<open>t\<close> has unrebuilt
  changes only if \<open>s\<close> has.  \<open>fixLogEntries\<close> are the log entries of the merge loop.\<close>

definition follows :: "App \<Rightarrow> App \<Rightarrow> bool" where
  "follows s t =
     ((\<exists>rest. logs t = logs s @ rest)
      \<and> (if hasUnrebuiltChanges t then hasUnrebuiltChanges s else True))"

fun fixLogEntries :: "GeneratedFile list \<Rightarrow> FixedFile list \<Rightarrow> LogEntry list" where
  "fixLogEntries fs [] = []"
| "fixLogEntries fs (f # rest) =
     \<lparr>message = applyFixMessage fs f, type = Log\<rparr> # fixLogEntries (applyFix fs f) rest"

text \<open>\<open>buildingSession\<close> is \<open>echoSession\<close> after the start button, with its first build
  request open (\<open>failedBuildSession\<close> is its end); \<open>sentinelBuildingSession\<close> and
  \<open>sentinelFailedSession\<close> are the same for \<open>sentinelNamed\<close>; \<open>setupFailedSession\<close> is the
  session whose setup files could not be generated; \<open>editableSession\<close> is a session in
  \<open>ERROR\<close> with one file and no unrebuilt changes.\<close>

definition buildingSession :: App where
  "buildingSession = handleStartConfiguration echoBot echoSession"

definition editableSession :: App where
  "editableSession =
     initialApp\<lparr>buildState := ERROR,
       generatedFiles := [\<lparr>name = ''main.py'', code = ''print(1)''\<rparr>]\<rparr>"

definition sentinelBuildingSession :: App where
  "sentinelBuildingSession = handleStartConfiguration sentinelNamed echoSession"

definition sentinelFailedSession :: App where
  "sentinelFailedSession = buildLoop sentinelNamed sentinelBuildingSession"

definition setupFailedSession :: App where
  "setupFailedSession = handleStartConfiguration setupFails echoSession"

text \<open>
  Notions for the build connections.  A connection is \<open>resolved\<close> when its client has decided
  the outcome and the socket is no longer connecting or open; \<open>liveConnections\<close> counts the
  sockets that are connecting or open.  \<open>nonTerminal\<close> events are the \<open>open\<close> event and the
  messages other than \<open>BUILD_DONE\<close> and \<open>BUILD_ERROR\<close>.  \<open>pendingBuild fs pre s\<close> is the
  session after \<open>runBuildStep fs\<close> and the events \<open>pre\<close> on the new socket, and
  \<open>closedNormally\<close> the same after the close event with code 1000 on that socket.  A
  \<open>closedSocket\<close> is closed, has had its close event, and its watchdog is off.
\<close>

definition resolved :: "WebSocket \<Rightarrow> bool" where
  "resolved ws = (completed ws \<and> \<not> live ws)"

definition liveConnections :: "App \<Rightarrow> nat" where
  "liveConnections s = length (filter live (sockets s))"

definition nonTerminal :: "SocketEvent \<Rightarrow> bool" where
  "nonTerminal ev =
     (case ev of
        EV_open \<Rightarrow> True
      | EV_message d \<Rightarrow> (case d of BUILD_DONE \<Rightarrow> False | BUILD_ERROR msg \<Rightarrow> False | _ \<Rightarrow> True)
      | _ \<Rightarrow> False)"

definition pendingBuild :: "GeneratedFile list \<Rightarrow> SocketEvent list \<Rightarrow> App \<Rightarrow> App" where
  "pendingBuild fs pre s = socketEvents (length (sockets s)) pre (runBuildStep fs s)"

definition closedSocket :: "WebSocket \<Rightarrow> bool" where
  "closedSocket ws = (readyState ws = CLOSED \<and> closeEventFired ws \<and> \<not> timeoutArmed ws)"

definition closedNormally :: "GeneratedFile list \<Rightarrow> SocketEvent list \<Rightarrow> string \<Rightarrow> App \<Rightarrow> App" where
  "closedNormally fs pre reason s =
     socketEvent (length (sockets s)) (EV_close 1000 reason) (pendingBuild fs pre s)"

text \<open>
  Two clicks on Rebuild.  \<open>editedSession\<close> is \<open>runningSession\<close> after the user has saved an
  edit of \<open>main.py\<close>.  \<open>firstClick\<close> is the first click on Rebuild, up to its
  \<open>await stopBot()\<close>; \<open>secondClick\<close> is a second click, in the render after the first, while
  the stop request of the first is under way; \<open>firstRebuild\<close> and \<open>secondRebuild\<close> are the
  session after the stop request of the first and of the second click has returned.
\<close>

definition editedSession :: App where
  "editedSession = saveFile ''main.py'' ''print(2)'' runningSession"

definition firstClick :: App where
  "firstClick = handleRebuild_sync (render editedSession) editedSession"

definition secondClick :: App where
  "secondClick = handleRebuild_sync (render firstClick) firstClick"

definition firstRebuild :: App where
  "firstRebuild = handleRebuild_cont (render editedSession) (stopBot_cont secondClick)"

definition secondRebuild :: App where
  "secondRebuild = handleRebuild_cont (render firstClick) (stopBot_cont firstRebuild)"

text \<open>
  \<open>sessionCleared\<close>: the file set and both logs are empty, the attempt counter is 0, the
  runtime state is \<open>STOPPED\<close> and the countdown has its initial value.
  \<open>resetRejectedSession\<close> is \<open>runningSession\<close> after a click on the reset button whose stop
  request is rejected.
\<close>

definition sessionCleared :: "App \<Rightarrow> bool" where
  "sessionCleared s =
     (generatedFiles s = [] \<and> logs s = [] \<and> runtimeLogs s = [] \<and> buildLoopAttempt s = 0
      \<and> runtimeState s = STOPPED \<and> countdown s = RUNTIME_DURATION_SECONDS)"

definition resetRejectedSession :: App where
  "resetRejectedSession = clickReset (Inl ''Failed to fetch'') runningSession"

section \<open>Properties\<close>

subsection \<open>Library lemmas\<close>

lemma findIndex_None: "findIndex p xs = None \<longleftrightarrow> (\<forall>x \<in> set xs. \<not> p x)"
  by (induction xs) auto

lemma findIndex_Some:
  "findIndex p xs = Some i \<Longrightarrow> i < length xs \<and> p (xs ! i) \<and> (\<forall>j<i. \<not> p (xs ! j))"
proof (induction xs arbitrary: i)
  case Nil
  then show ?case by simp
next
  case (Cons x xs)
  show ?case
  proof (cases "p x")
    case True
    with Cons.prems show ?thesis by simp
  next
    case False
    with Cons.prems obtain k where k: "findIndex p xs = Some k" "i = Suc k"
      by auto
    from Cons.IH [OF k(1)] False k(2) show ?thesis
      by (auto simp: nth_Cons split: nat.splits)
  qed
qed

lemma findIndex_exists: "\<exists>x \<in> set xs. p x \<Longrightarrow> \<exists>i. findIndex p xs = Some i"
  using findIndex_None [of p xs] by (cases "findIndex p xs") auto

lemma set_Set_add: "set (Set_add s x) = insert x (set s)"
  by (auto simp: Set_add_def)

lemma distinct_Set_add: "distinct s \<Longrightarrow> distinct (Set_add s x)"
  by (auto simp: Set_add_def)

lemma set_foldl_Set_add: "set (foldl Set_add s xs) = set s \<union> set xs"
  by (induction xs arbitrary: s) (auto simp: set_Set_add)

lemma distinct_foldl_Set_add: "distinct s \<Longrightarrow> distinct (foldl Set_add s xs)"
  by (induction xs arbitrary: s) (auto simp: distinct_Set_add)

subsection \<open>Patch merge\<close>

lemma applyFix_present:
  assumes "name fixedFile \<in> set (map name fs)"
  shows "\<exists>i<length fs. name (fs ! i) = name fixedFile \<and> (\<forall>j<i. name (fs ! j) \<noteq> name fixedFile)
           \<and> applyFix fs fixedFile = fs[i := \<lparr>name = name fixedFile, code = code fixedFile\<rparr>]"
proof -
  from assms have "\<exists>x \<in> set fs. name x = name fixedFile" by auto
  then obtain i where i: "findIndex (\<lambda>f. name f = name fixedFile) fs = Some i"
    using findIndex_exists [of fs "\<lambda>f. name f = name fixedFile"] by blast
  from findIndex_Some [OF i] i show ?thesis
    by (auto simp: applyFix_def)
qed

lemma applyFix_absent:
  assumes "name fixedFile \<notin> set (map name fs)"
  shows "applyFix fs fixedFile = fs @ [\<lparr>name = name fixedFile, code = code fixedFile\<rparr>]"
proof -
  from assms have "findIndex (\<lambda>f. name f = name fixedFile) fs = None"
    unfolding findIndex_None by (metis image_eqI set_map)
  then show ?thesis by (simp add: applyFix_def)
qed

lemma applyFix_names_present:
  assumes "name fixedFile \<in> set (map name fs)"
  shows "map name (applyFix fs fixedFile) = map name fs"
proof -
  from applyFix_present [OF assms] obtain i where
    i: "i < length fs" "name (fs ! i) = name fixedFile"
       "applyFix fs fixedFile = fs[i := \<lparr>name = name fixedFile, code = code fixedFile\<rparr>]"
    by blast
  have "map name (fs[i := \<lparr>name = name fixedFile, code = code fixedFile\<rparr>])
          = (map name fs)[i := name fixedFile]"
    by (simp add: map_update)
  also have "\<dots> = map name fs"
    using i(1,2) by (metis list_update_id nth_map)
  finally show ?thesis using i(3) by simp
qed

lemma applyFix_names: "map name (applyFix fs f) = Set_add (map name fs) (name f)"
  by (cases "name f \<in> set (map name fs)")
     (simp_all add: applyFix_names_present applyFix_absent Set_add_def)

lemma applyFix_untouched:
  assumes "i < length fs" "name (fs ! i) \<noteq> name f"
  shows "applyFix fs f ! i = fs ! i"
proof (cases "name f \<in> set (map name fs)")
  case True
  from applyFix_present [OF True] obtain k where
    k: "k < length fs" "name (fs ! k) = name f"
       "applyFix fs f = fs[k := \<lparr>name = name f, code = code f\<rparr>]" by blast
  with assms have "k \<noteq> i" by auto
  with k(3) show ?thesis by simp
next
  case False
  with assms(1) show ?thesis by (simp add: applyFix_absent nth_append)
qed

lemma applyFix_length: "length fs \<le> length (applyFix fs f)"
  by (simp add: applyFix_def split: option.splits)

lemma applyFix_name_nth:
  assumes "i < length fs"
  shows "name (applyFix fs f ! i) = name (fs ! i)"
proof -
  have "map name (applyFix fs f) ! i = map name fs ! i"
    using assms by (simp add: applyFix_names Set_add_def nth_append)
  with assms applyFix_length [of fs f] show ?thesis
    by (metis length_map nth_map order_less_le_trans)
qed

lemma applyFixes_names_present:
  "set (map name fixed) \<subseteq> set (map name fs) \<Longrightarrow> map name (applyFixes fs fixed) = map name fs"
  unfolding applyFixes_def
proof (induction fixed arbitrary: fs)
  case Nil
  then show ?case by simp
next
  case (Cons f fixed)
  from Cons.prems have f: "name f \<in> set (map name fs)" by simp
  have n: "map name (applyFix fs f) = map name fs" by (rule applyFix_names_present [OF f])
  from Cons.prems n have "set (map name fixed) \<subseteq> set (map name (applyFix fs f))" by simp
  from Cons.IH [OF this] n show ?case by simp
qed

lemma applyFixes_untouched:
  "i < length fs \<Longrightarrow> name (fs ! i) \<notin> set (map name fixed) \<Longrightarrow> applyFixes fs fixed ! i = fs ! i"
  unfolding applyFixes_def
proof (induction fixed arbitrary: fs)
  case Nil
  then show ?case by simp
next
  case (Cons f fixed)
  from Cons.prems have ne: "name (fs ! i) \<noteq> name f" by auto
  have l: "i < length (applyFix fs f)"
    using Cons.prems(1) applyFix_length [of fs f] by simp
  have s: "applyFix fs f ! i = fs ! i"
    by (rule applyFix_untouched [OF Cons.prems(1) ne])
  have "name (applyFix fs f ! i) \<notin> set (map name fixed)"
    using s Cons.prems(2) by auto
  from Cons.IH [OF l this] s show ?case by simp
qed

text \<open>
  \<^bold>\<open>C6\<close>.  One iteration of the merge loop replaces, at its position, the first file that has
  the name of the patched file, and appends the patched file when no file has that name.
  The loop runs the iterations in the order of the patch.  A patch all of whose names are
  names of the file set leaves the number of files and the sequence of names unchanged, and
  every file that no patch entry names keeps its position and its content.  (No condition
  on the patch is needed; \<open>runDebugStep\<close> reaches the merge only with a non-empty patch.)
\<close>

theorem patch_merge_in_place_or_append:
  "(\<forall>(updatedFiles :: GeneratedFile list) (fixedFile :: FixedFile).
      name fixedFile \<in> set (map name updatedFiles) \<longrightarrow>
      (\<exists>i<length updatedFiles.
          name (updatedFiles ! i) = name fixedFile
        \<and> (\<forall>j<i. name (updatedFiles ! j) \<noteq> name fixedFile)
        \<and> applyFix updatedFiles fixedFile
            = updatedFiles[i := \<lparr>name = name fixedFile, code = code fixedFile\<rparr>]))
   \<and> (\<forall>(updatedFiles :: GeneratedFile list) (fixedFile :: FixedFile).
        name fixedFile \<notin> set (map name updatedFiles) \<longrightarrow>
        applyFix updatedFiles fixedFile
          = updatedFiles @ [\<lparr>name = name fixedFile, code = code fixedFile\<rparr>])
   \<and> (\<forall>(files :: GeneratedFile list) fixed (fixedFile :: FixedFile).
        applyFixes files [] = files
      \<and> applyFixes files (fixed @ [fixedFile]) = applyFix (applyFixes files fixed) fixedFile)
   \<and> (\<forall>(files :: GeneratedFile list) (fixed :: FixedFile list).
        set (map name fixed) \<subseteq> set (map name files) \<longrightarrow>
        length (applyFixes files fixed) = length files
      \<and> map name (applyFixes files fixed) = map name files)
   \<and> (\<forall>(files :: GeneratedFile list) (fixed :: FixedFile list) i.
        i < length files \<and> name (files ! i) \<notin> set (map name fixed) \<longrightarrow>
        applyFixes files fixed ! i = files ! i)"
proof (intro conjI allI impI)
  fix updatedFiles :: "GeneratedFile list" and fixedFile :: FixedFile
  assume "name fixedFile \<in> set (map name updatedFiles)"
  then show "\<exists>i<length updatedFiles.
          name (updatedFiles ! i) = name fixedFile
        \<and> (\<forall>j<i. name (updatedFiles ! j) \<noteq> name fixedFile)
        \<and> applyFix updatedFiles fixedFile
            = updatedFiles[i := \<lparr>name = name fixedFile, code = code fixedFile\<rparr>]"
    by (rule applyFix_present)
next
  fix updatedFiles :: "GeneratedFile list" and fixedFile :: FixedFile
  assume "name fixedFile \<notin> set (map name updatedFiles)"
  then show "applyFix updatedFiles fixedFile
          = updatedFiles @ [\<lparr>name = name fixedFile, code = code fixedFile\<rparr>]"
    by (rule applyFix_absent)
next
  fix files :: "GeneratedFile list"
  show "applyFixes files [] = files" by (simp add: applyFixes_def)
next
  fix files :: "GeneratedFile list" and fixed :: "FixedFile list" and fixedFile :: FixedFile
  show "applyFixes files (fixed @ [fixedFile]) = applyFix (applyFixes files fixed) fixedFile"
    by (simp add: applyFixes_def)
next
  fix files :: "GeneratedFile list" and fixed :: "FixedFile list"
  assume a: "set (map name fixed) \<subseteq> set (map name files)"
  from applyFixes_names_present [OF a]
  show "length (applyFixes files fixed) = length files"
    by (metis length_map)
  from applyFixes_names_present [OF a]
  show "map name (applyFixes files fixed) = map name files" .
next
  fix files :: "GeneratedFile list" and fixed :: "FixedFile list" and i
  assume "i < length files \<and> name (files ! i) \<notin> set (map name fixed)"
  then show "applyFixes files fixed ! i = files ! i"
    by (simp add: applyFixes_untouched)
qed

text \<open>The theorem at the file set \<open>main.py\<close>, \<open>requirements.txt\<close>: a patch of \<open>main.py\<close>
  replaces it at position 0, a patch that names \<open>utils.py\<close> is appended.\<close>

theorem patch_merge_in_place_or_append_witness:
  "name \<lparr>name = ''main.py'', code = ''new'', changes_summary = ''s''\<rparr>
      \<in> set (map name [\<lparr>name = ''main.py'', code = ''old''\<rparr>,
                        \<lparr>name = ''requirements.txt'', code = ''aiogram''\<rparr>])
   \<and> (\<exists>i<length [\<lparr>name = ''main.py'', code = ''old''\<rparr>,
                  \<lparr>name = ''requirements.txt'', code = ''aiogram''\<rparr>].
        applyFix [\<lparr>name = ''main.py'', code = ''old''\<rparr>,
                  \<lparr>name = ''requirements.txt'', code = ''aiogram''\<rparr>]
                 \<lparr>name = ''main.py'', code = ''new'', changes_summary = ''s''\<rparr>
          = [\<lparr>name = ''main.py'', code = ''old''\<rparr>,
             \<lparr>name = ''requirements.txt'', code = ''aiogram''\<rparr>]
              [i := \<lparr>name = ''main.py'', code = ''new''\<rparr>])
   \<and> name \<lparr>name = ''utils.py'', code = ''u'', changes_summary = ''s''\<rparr>
        \<notin> set (map name [\<lparr>name = ''main.py'', code = ''old''\<rparr>,
                          \<lparr>name = ''requirements.txt'', code = ''aiogram''\<rparr>])
   \<and> applyFix [\<lparr>name = ''main.py'', code = ''old''\<rparr>,
               \<lparr>name = ''requirements.txt'', code = ''aiogram''\<rparr>]
              \<lparr>name = ''utils.py'', code = ''u'', changes_summary = ''s''\<rparr>
        = [\<lparr>name = ''main.py'', code = ''old''\<rparr>,
           \<lparr>name = ''requirements.txt'', code = ''aiogram''\<rparr>,
           \<lparr>name = ''utils.py'', code = ''u''\<rparr>]
   \<and> set (map name [\<lparr>name = ''main.py'', code = ''new'', changes_summary = ''s''\<rparr>])
        \<subseteq> set (map name [\<lparr>name = ''main.py'', code = ''old''\<rparr>,
                          \<lparr>name = ''requirements.txt'', code = ''aiogram''\<rparr>])
   \<and> map name (applyFixes [\<lparr>name = ''main.py'', code = ''old''\<rparr>,
                           \<lparr>name = ''requirements.txt'', code = ''aiogram''\<rparr>]
                          [\<lparr>name = ''main.py'', code = ''new'', changes_summary = ''s''\<rparr>])
        = [''main.py'', ''requirements.txt'']
   \<and> applyFixes [\<lparr>name = ''main.py'', code = ''old''\<rparr>,
                 \<lparr>name = ''requirements.txt'', code = ''aiogram''\<rparr>]
                [\<lparr>name = ''main.py'', code = ''new'', changes_summary = ''s''\<rparr>] ! 1
        = \<lparr>name = ''requirements.txt'', code = ''aiogram''\<rparr>"
proof -
  let ?fs = "[\<lparr>name = ''main.py'', code = ''old''\<rparr>,
              \<lparr>name = ''requirements.txt'', code = ''aiogram''\<rparr>]"
  let ?p = "\<lparr>name = ''main.py'', code = ''new'', changes_summary = ''s''\<rparr>"
  let ?q = "\<lparr>name = ''utils.py'', code = ''u'', changes_summary = ''s''\<rparr>"
  note t = patch_merge_in_place_or_append
  have h1: "name ?p \<in> set (map name ?fs)" by simp
  have h2: "name ?q \<notin> set (map name ?fs)" by simp
  have h3: "set (map name [?p]) \<subseteq> set (map name ?fs)" by simp
  have h4: "(1::nat) < length ?fs \<and> name (?fs ! 1) \<notin> set (map name [?p])" by simp
  from t have c1: "\<exists>i<length ?fs. name (?fs ! i) = name ?p
        \<and> (\<forall>j<i. name (?fs ! j) \<noteq> name ?p)
        \<and> applyFix ?fs ?p = ?fs[i := \<lparr>name = name ?p, code = code ?p\<rparr>]"
    using h1 by blast
  from t have c2: "applyFix ?fs ?q = ?fs @ [\<lparr>name = name ?q, code = code ?q\<rparr>]"
    using h2 by blast
  from t have c3: "map name (applyFixes ?fs [?p]) = map name ?fs"
    using h3 by blast
  from t have c4: "applyFixes ?fs [?p] ! 1 = ?fs ! 1"
    using h4 by blast
  from c1 have c1': "\<exists>i<length ?fs. applyFix ?fs ?p = ?fs[i := \<lparr>name = ''main.py'', code = ''new''\<rparr>]"
    by auto
  show ?thesis
    using h1 c1' h2 c2 h3 c3 c4 by simp
qed

subsection \<open>Dependency union\<close>

lemma set_existingReqs:
  "set (existingReqs c) = {trim l | l. l \<in> set (split_nl c) \<and> trim l \<noteq> []}"
  by (auto simp: existingReqs_def new_Set_def set_foldl_Set_add)

lemma distinct_existingReqs: "distinct (existingReqs c)"
  by (simp add: existingReqs_def new_Set_def distinct_foldl_Set_add)

lemma set_mergedReqs:
  "set (mergedReqs c reqs) = {trim l | l. l \<in> set (split_nl c) \<and> trim l \<noteq> []} \<union> set reqs"
  by (simp add: mergedReqs_def set_foldl_Set_add set_existingReqs)

lemma distinct_mergedReqs: "distinct (mergedReqs c reqs)"
  by (simp add: mergedReqs_def distinct_foldl_Set_add distinct_existingReqs)

text \<open>
  \<^bold>\<open>C7\<close>.  When the repair result has a non-empty \<open>updated_requirements\<close> and the file set has
  a file \<open>requirements.txt\<close> (the first one, at index \<open>i\<close>), only that file changes: its new
  content is the entries joined by line feeds, where the entries are pairwise different and,
  as a set, are the union of the trimmed non-blank lines of the old content with the new
  entries (taken as they are).  The set does not depend on the order of the new entries.
\<close>

theorem requirements_union:
  assumes "hasUpdatedRequirements r"
    and "findIndex (\<lambda>f. name f = ''requirements.txt'') updatedFiles = Some i"
  shows "updateRequirements r updatedFiles
           = updatedFiles[i := (updatedFiles ! i)
               \<lparr>code := join [CHR 0x0A] (mergedReqs (code (updatedFiles ! i)) (the r))\<rparr>]
       \<and> set (mergedReqs (code (updatedFiles ! i)) (the r))
           = {trim l | l. l \<in> set (split_nl (code (updatedFiles ! i))) \<and> trim l \<noteq> []}
             \<union> set (the r)
       \<and> distinct (mergedReqs (code (updatedFiles ! i)) (the r))
       \<and> (\<forall>reqs'. set reqs' = set (the r) \<longrightarrow>
            set (mergedReqs (code (updatedFiles ! i)) reqs')
              = set (mergedReqs (code (updatedFiles ! i)) (the r)))"
  using assms
  by (simp add: updateRequirements_def set_mergedReqs distinct_mergedReqs)

text \<open>The example of the specification: the manifest lines \<open>aiogram==3.1\<close>, \<open>requests\<close>
  and the new entries \<open>requests\<close>, \<open>aiohttp\<close> give three entries.\<close>

theorem requirements_union_witness:
  "hasUpdatedRequirements (Some [''requests'', ''aiohttp''])
   \<and> findIndex (\<lambda>f. name f = ''requirements.txt'')
        [\<lparr>name = ''main.py'', code = ''x''\<rparr>,
         \<lparr>name = ''requirements.txt'', code = ''aiogram==3.1'' @ [CHR 0x0A] @ ''requests''\<rparr>]
       = Some 1
   \<and> updateRequirements (Some [''requests'', ''aiohttp''])
        [\<lparr>name = ''main.py'', code = ''x''\<rparr>,
         \<lparr>name = ''requirements.txt'', code = ''aiogram==3.1'' @ [CHR 0x0A] @ ''requests''\<rparr>]
       = [\<lparr>name = ''main.py'', code = ''x''\<rparr>,
          \<lparr>name = ''requirements.txt'',
            code = ''aiogram==3.1'' @ [CHR 0x0A] @ ''requests'' @ [CHR 0x0A] @ ''aiohttp''\<rparr>]
   \<and> mergedReqs (''aiogram==3.1'' @ [CHR 0x0A] @ ''requests'') [''requests'', ''aiohttp'']
       = [''aiogram==3.1'', ''requests'', ''aiohttp'']
   \<and> set (mergedReqs (''aiogram==3.1'' @ [CHR 0x0A] @ ''requests'') [''aiohttp'', ''requests''])
       = {''aiogram==3.1'', ''requests'', ''aiohttp''}"
proof -
  let ?c = "''aiogram==3.1'' @ [CHR 0x0A] @ ''requests''"
  let ?fs = "[\<lparr>name = ''main.py'', code = ''x''\<rparr>, \<lparr>name = ''requirements.txt'', code = ?c\<rparr>]"
  have h1: "hasUpdatedRequirements (Some [''requests'', ''aiohttp''])"
    by (simp add: hasUpdatedRequirements_def)
  have h2: "findIndex (\<lambda>f. name f = ''requirements.txt'') ?fs = Some 1"
    by simp
  have m: "mergedReqs ?c [''requests'', ''aiohttp''] = [''aiogram==3.1'', ''requests'', ''aiohttp'']"
    by (simp add: mergedReqs_def existingReqs_def new_Set_def Set_add_def trim_def
        isWhiteSpace_def)
  have c: "code (?fs ! 1) = ?c" by simp
  note t = requirements_union [OF h1 h2, unfolded option.sel c]
  have u: "updateRequirements (Some [''requests'', ''aiohttp'']) ?fs
           = ?fs[1 := (?fs ! 1)\<lparr>code := join [CHR 0x0A] (mergedReqs ?c [''requests'', ''aiohttp''])\<rparr>]"
    by (rule t [THEN conjunct1])
  have u': "updateRequirements (Some [''requests'', ''aiohttp'']) ?fs
       = [\<lparr>name = ''main.py'', code = ''x''\<rparr>,
          \<lparr>name = ''requirements.txt'',
            code = ''aiogram==3.1'' @ [CHR 0x0A] @ ''requests'' @ [CHR 0x0A] @ ''aiohttp''\<rparr>]"
    unfolding u m by simp
  have p: "set [''aiohttp'', ''requests''] = set [''requests'', ''aiohttp'']"
    by (simp add: insert_commute)
  have o: "set (mergedReqs ?c [''aiohttp'', ''requests''])
              = set (mergedReqs ?c [''requests'', ''aiohttp''])"
    using t [THEN conjunct2, THEN conjunct2, THEN conjunct2] p by blast
  have o': "set (mergedReqs ?c [''aiohttp'', ''requests''])
       = {''aiogram==3.1'', ''requests'', ''aiohttp''}"
    unfolding o m by simp
  from h1 h2 u' m o' show ?thesis
    by (intro conjI)
qed

subsection \<open>The build client\<close>

lemma isOutcome_simps [simp]:
  "\<not> isOutcome (CB_onProgress l)" "isOutcome CB_onComplete" "isOutcome (CB_onError e)"
  by (simp_all add: isOutcome_def)

lemma ws_close_completed [simp]: "completed (ws_close c r ws) = completed ws"
  by (simp add: ws_close_def)

lemma ws_dispatch_completed:
  assumes "completed ws"
  shows "filter isOutcome (snd (ws_dispatch ev ws)) = [] \<and> completed (fst (ws_dispatch ev ws))"
proof (cases ev)
  case (EV_message d)
  with assms show ?thesis
    by (cases d)
       (auto simp: ws_dispatch_def ws_onmessage_def cleanup_def Let_def
          split: option.splits)
qed (use assms in \<open>auto simp: ws_dispatch_def ws_onopen_def ws_onerror_def ws_onclose_def
        timeoutHandler_def cleanup_def Let_def\<close>)

lemma ws_dispatch_first_outcome:
  assumes "\<not> completed ws"
  shows "filter isOutcome (snd (ws_dispatch ev ws)) = []
       \<or> (\<exists>cb. filter isOutcome (snd (ws_dispatch ev ws)) = [cb] \<and> completed (fst (ws_dispatch ev ws)))"
proof (cases ev)
  case (EV_message d)
  with assms show ?thesis
    by (cases d)
       (auto simp: ws_dispatch_def ws_onmessage_def cleanup_def Let_def
          split: option.splits)
qed (use assms in \<open>auto simp: ws_dispatch_def ws_onopen_def ws_onerror_def ws_onclose_def
        timeoutHandler_def cleanup_def Let_def\<close>)

lemma ws_run_completed:
  "completed ws \<Longrightarrow> filter isOutcome (snd (ws_run evs ws)) = []"
proof (induction evs arbitrary: ws)
  case Nil
  then show ?case by simp
next
  case (Cons ev evs)
  from ws_dispatch_completed [OF Cons.prems, of ev] Cons.IH [of "fst (ws_dispatch ev ws)"]
  show ?case by (simp add: split_beta)
qed

lemma ws_run_single_resolution:
  "length (filter isOutcome (snd (ws_run evs ws))) \<le> 1"
proof (induction evs arbitrary: ws)
  case Nil
  then show ?case by simp
next
  case (Cons ev evs)
  show ?case
  proof (cases "completed ws")
    case True
    from ws_run_completed [OF True, of "ev # evs"] show ?thesis by simp
  next
    case False
    from ws_dispatch_first_outcome [OF False, of ev] show ?thesis
    proof
      assume "filter isOutcome (snd (ws_dispatch ev ws)) = []"
      with Cons.IH [of "fst (ws_dispatch ev ws)"] show ?thesis by (simp add: split_beta)
    next
      assume "\<exists>cb. filter isOutcome (snd (ws_dispatch ev ws)) = [cb]
                    \<and> completed (fst (ws_dispatch ev ws))"
      then obtain cb where cb: "filter isOutcome (snd (ws_dispatch ev ws)) = [cb]"
        and c: "completed (fst (ws_dispatch ev ws))" by blast
      from ws_run_completed [OF c, of evs] cb show ?thesis by (simp add: split_beta)
    qed
  qed
qed


lemma appCallback_sockets: "sockets (appCallback cb s) = sockets s"
  by (cases cb) (simp_all add: appCallback_def handleBuildError_def Let_def runDebugStep_sync_def)

lemma appCallback_sockets_update:
  "appCallback cb (s\<lparr>sockets := x\<rparr>) = (appCallback cb s)\<lparr>sockets := x\<rparr>"
  by (cases cb)
     (simp_all add: appCallback_def handleBuildError_def Let_def runDebugStep_sync_def addLog_def)

lemma fold_appCallback_sockets: "sockets (fold appCallback cbs s) = sockets s"
  by (induction cbs arbitrary: s) (simp_all add: appCallback_sockets)

lemma fold_appCallback_sockets_update:
  "fold appCallback cbs (s\<lparr>sockets := x\<rparr>) = (fold appCallback cbs s)\<lparr>sockets := x\<rparr>"
  by (induction cbs arbitrary: s) (simp_all add: appCallback_sockets_update)

lemma socketEvent_eq:
  assumes "i < length (sockets s)"
  shows "socketEvent i ev s
           = (fold appCallback (snd (ws_dispatch ev (sockets s ! i))) s)
               \<lparr>sockets := (sockets s)[i := fst (ws_dispatch ev (sockets s ! i))]\<rparr>"
  using assms by (simp add: socketEvent_def Let_def fold_appCallback_sockets_update)

lemma socketEvents_eq:
  assumes "i < length (sockets s)"
  shows "socketEvents i evs s
           = (fold appCallback (snd (ws_run evs (sockets s ! i))) s)
               \<lparr>sockets := (sockets s)[i := fst (ws_run evs (sockets s ! i))]\<rparr>"
  using assms
proof (induction evs arbitrary: s)
  case Nil
  then show ?case by (simp add: socketEvents_def)
next
  case (Cons ev evs)
  let ?d = "ws_dispatch ev (sockets s ! i)"
  let ?s1 = "socketEvent i ev s"
  have s1: "?s1 = (fold appCallback (snd ?d) s)\<lparr>sockets := (sockets s)[i := fst ?d]\<rparr>"
    by (rule socketEvent_eq [OF Cons.prems])
  have l: "i < length (sockets ?s1)" and n: "sockets ?s1 ! i = fst ?d"
    and ss: "sockets ?s1 = (sockets s)[i := fst ?d]"
    using Cons.prems by (simp_all add: s1)
  have "socketEvents i (ev # evs) s = socketEvents i evs ?s1"
    by (simp add: socketEvents_def)
  also have "\<dots> = (fold appCallback (snd (ws_run evs (fst ?d))) ?s1)
               \<lparr>sockets := (sockets ?s1)[i := fst (ws_run evs (fst ?d))]\<rparr>"
    using Cons.IH [OF l] by (simp add: n)
  also have "\<dots> = (fold appCallback (snd (ws_run (ev # evs) (sockets s ! i))) s)
               \<lparr>sockets := (sockets s)[i := fst (ws_run (ev # evs) (sockets s ! i))]\<rparr>"
    by (simp add: ss s1 fold_appCallback_sockets_update split_beta)
  finally show ?case .
qed


lemma appCallback_simps:
  "appCallback (CB_onProgress l) s = addLog l Log s"
  "appCallback CB_onComplete s = s\<lparr>buildState := SUCCESS, hasUnrebuiltChanges := False\<rparr>"
  "appCallback (CB_onError e) s = handleBuildError e s"
  by (simp_all add: appCallback_def)

lemma core_addLog: "core (addLog m t s) = core s"
  by (simp add: core_def addLog_def)

lemma core_handleBuildError: "core (handleBuildError e (addLog m t s)) = core (handleBuildError e s)"
  by (simp add: core_def handleBuildError_def Let_def runDebugStep_sync_def addLog_def)

lemma core_progress:
  "filter isOutcome cbs = [] \<Longrightarrow> core (fold appCallback cbs s) = core s"
proof (induction cbs arbitrary: s)
  case Nil
  then show ?case by simp
next
  case (Cons cb cbs)
  then show ?case
    by (cases cb) (simp_all add: appCallback_simps core_addLog)
qed

lemma core_failure:
  "filter isOutcome cbs = [CB_onError e] \<Longrightarrow> core (fold appCallback cbs s) = core (handleBuildError e s)"
proof (induction cbs arbitrary: s)
  case Nil
  then show ?case by simp
next
  case (Cons cb cbs)
  show ?case
  proof (cases cb)
    case (CB_onProgress l)
    with Cons.prems have "filter isOutcome cbs = [CB_onError e]" by simp
    from Cons.IH [OF this] CB_onProgress show ?thesis
      by (simp add: appCallback_simps core_handleBuildError)
  next
    case CB_onComplete
    with Cons.prems show ?thesis by simp
  next
    case (CB_onError e')
    with Cons.prems have "e' = e" "filter isOutcome cbs = []" by simp_all
    with core_progress [of cbs "handleBuildError e s"] CB_onError show ?thesis
      by (simp add: appCallback_simps)
  qed
qed

lemma core_success:
  "filter isOutcome cbs = [CB_onComplete] \<Longrightarrow>
   core (fold appCallback cbs s) = core (s\<lparr>buildState := SUCCESS, hasUnrebuiltChanges := False\<rparr>)"
proof (induction cbs arbitrary: s)
  case Nil
  then show ?case by simp
next
  case (Cons cb cbs)
  show ?case
  proof (cases cb)
    case (CB_onProgress l)
    with Cons.prems have "filter isOutcome cbs = [CB_onComplete]" by simp
    from Cons.IH [OF this] CB_onProgress show ?thesis
      by (simp add: appCallback_simps core_def addLog_def)
  next
    case CB_onComplete
    with Cons.prems have "filter isOutcome cbs = []" by simp
    with core_progress [of cbs "s\<lparr>buildState := SUCCESS, hasUnrebuiltChanges := False\<rparr>"] CB_onComplete
    show ?thesis by (simp add: appCallback_simps)
  next
    case (CB_onError e')
    with Cons.prems show ?thesis by simp
  qed
qed

lemma core_fields:
  "buildState (core s) = buildState s"
  "buildLoopAttempt (core s) = buildLoopAttempt s"
  "calls (core s) = calls s"
  "prompt (core s) = prompt s"
  "library (core s) = library s"
  "token (core s) = token s"
  "currentBuildFiles (core s) = currentBuildFiles s"
  "lastBuildError (core s) = lastBuildError s"
  "hasUnrebuiltChanges (core s) = hasUnrebuiltChanges s"
  "generatedFiles (core s) = generatedFiles s"
  "sockets (core s) = sockets s"
  by (simp_all add: core_def)

lemma buildFailsScript_outcome: "reportedOutcome buildFailsScript fs tok = [CB_onError ''boom'']"
  by (simp add: reportedOutcome_def buildFailsScript_def ws_dispatch_def ws_onopen_def
      ws_onmessage_def ws_onclose_def newWebSocket_def cleanup_def ws_close_def js_or_def
      toLowerCase_def Let_def)

lemma buildSucceedsScript_outcome: "reportedOutcome buildSucceedsScript fs tok = [CB_onComplete]"
  by (simp add: reportedOutcome_def buildSucceedsScript_def ws_dispatch_def ws_onopen_def
      ws_onmessage_def ws_onclose_def newWebSocket_def cleanup_def ws_close_def js_or_def
      toLowerCase_def Let_def)

subsection \<open>The build and debug loop\<close>

lemma handleBuildError_calls:
  "calls (handleBuildError e s) =
     (if MAX_FIX_ATTEMPTS \<le> buildLoopAttempt s + 1 then calls s
      else calls s @ [Call_debugCode (prompt s) (currentBuildFiles s) e (library s)])"
  by (simp add: handleBuildError_def Let_def runDebugStep_sync_fields runDebugStep_sync_def)

lemma handleBuildError_more:
  "currentBuildFiles (handleBuildError e s) = currentBuildFiles s"
  "lastBuildError (handleBuildError e s) = e"
  "prompt (handleBuildError e s) = prompt s"
  "library (handleBuildError e s) = library s"
  "token (handleBuildError e s) = token s"
  "hasUnrebuiltChanges (handleBuildError e s) = hasUnrebuiltChanges s"
  "sockets (handleBuildError e s) = sockets s"
  by (simp_all add: handleBuildError_def Let_def runDebugStep_sync_def)

lemma runBuildStep_awaiting: "awaitingBuild (runBuildStep fs s)"
  by (simp add: awaitingBuild_def runBuildStep_def buildBot_def Let_def)

lemma foldl_applyFixLogged_fst:
  "fst (foldl applyFixLogged p fixed) = applyFixes (fst p) fixed"
  unfolding applyFixes_def
  by (induction fixed arbitrary: p) (simp_all add: applyFixLogged_def)

lemma runDebugStep_cont_throw:
  "buildState (runDebugStep_cont (Inl m) s) = ERROR"
  "calls (runDebugStep_cont (Inl m) s) = calls s"
  "sockets (runDebugStep_cont (Inl m) s) = sockets s"
  by (simp_all add: runDebugStep_cont_def runDebugStep_catch_def)

lemma runDebugStep_cont_empty:
  assumes "fixed_files d = None \<or> fixed_files d = Some []"
  shows "buildState (runDebugStep_cont (Inr d) s) = ERROR"
    and "calls (runDebugStep_cont (Inr d) s) = calls s"
    and "sockets (runDebugStep_cont (Inr d) s) = sockets s"
  using assms by (auto simp: runDebugStep_cont_def runDebugStep_catch_def)

lemma runDebugStep_cont_patch:
  assumes "fixed_files d = Some fixed" "fixed \<noteq> []"
  shows "buildState (runDebugStep_cont (Inr d) s) = BUILDING"
    and "calls (runDebugStep_cont (Inr d) s)
           = calls s @ [Call_buildBot
               (updateRequirements (updated_requirements d) (applyFixes (currentBuildFiles s) fixed))
               (token s)]"
    and "sockets (runDebugStep_cont (Inr d) s)
           = sockets s @ [newWebSocket
               (updateRequirements (updated_requirements d) (applyFixes (currentBuildFiles s) fixed))
               (token s)]"
    and "currentBuildFiles (runDebugStep_cont (Inr d) s)
           = updateRequirements (updated_requirements d) (applyFixes (currentBuildFiles s) fixed)"
    and "generatedFiles (runDebugStep_cont (Inr d) s)
           = updateRequirements (updated_requirements d) (applyFixes (currentBuildFiles s) fixed)"
    and "token (runDebugStep_cont (Inr d) s) = token s"
    and "awaitingBuild (runDebugStep_cont (Inr d) s)"
  using assms
  by (simp_all add: runDebugStep_cont_def Let_def runBuildStep_fields foldl_applyFixLogged_fst
      foldl_applyFixLogged_fields runBuildStep_def buildBot_def awaitingBuild_def)

lemma build_failed:
  assumes aw: "awaitingBuild s"
    and out: "filter isOutcome
                (snd (ws_run evs (newWebSocket (currentBuildFiles s) (token s)))) = [CB_onError e]"
  shows "buildLoopAttempt (socketEvents (newestSocket s) evs s) = buildLoopAttempt s + 1"
    and "buildState (socketEvents (newestSocket s) evs s)
           = (if MAX_FIX_ATTEMPTS \<le> buildLoopAttempt s + 1 then ERROR else DEBUGGING)"
    and "calls (socketEvents (newestSocket s) evs s)
           = (if MAX_FIX_ATTEMPTS \<le> buildLoopAttempt s + 1 then calls s
              else calls s @ [Call_debugCode (prompt s) (currentBuildFiles s) e (library s)])"
    and "prompt (socketEvents (newestSocket s) evs s) = prompt s"
    and "library (socketEvents (newestSocket s) evs s) = library s"
    and "token (socketEvents (newestSocket s) evs s) = token s"
    and "currentBuildFiles (socketEvents (newestSocket s) evs s) = currentBuildFiles s"
    and "lastBuildError (socketEvents (newestSocket s) evs s) = e"
    and "hasUnrebuiltChanges (socketEvents (newestSocket s) evs s) = hasUnrebuiltChanges s"
proof -
  let ?i = "newestSocket s"
  let ?cbs = "snd (ws_run evs (sockets s ! ?i))"
  from aw have i: "?i < length (sockets s)" by (simp add: awaitingBuild_def newestSocket_def)
  from aw have n: "sockets s ! ?i = newWebSocket (currentBuildFiles s) (token s)"
    unfolding awaitingBuild_def newestSocket_def by (metis last_conv_nth)
  have eq: "socketEvents ?i evs s
          = (fold appCallback ?cbs s)\<lparr>sockets := (sockets s)[?i := fst (ws_run evs (sockets s ! ?i))]\<rparr>"
    by (rule socketEvents_eq [OF i])
  have c: "core (fold appCallback ?cbs s) = core (handleBuildError e s)"
    using out by (simp add: n core_failure)
  have f: "buildLoopAttempt (fold appCallback ?cbs s) = buildLoopAttempt (handleBuildError e s)"
    "buildState (fold appCallback ?cbs s) = buildState (handleBuildError e s)"
    "calls (fold appCallback ?cbs s) = calls (handleBuildError e s)"
    "prompt (fold appCallback ?cbs s) = prompt (handleBuildError e s)"
    "library (fold appCallback ?cbs s) = library (handleBuildError e s)"
    "token (fold appCallback ?cbs s) = token (handleBuildError e s)"
    "currentBuildFiles (fold appCallback ?cbs s) = currentBuildFiles (handleBuildError e s)"
    "lastBuildError (fold appCallback ?cbs s) = lastBuildError (handleBuildError e s)"
    "hasUnrebuiltChanges (fold appCallback ?cbs s) = hasUnrebuiltChanges (handleBuildError e s)"
    using c by (metis core_fields)+
  show "buildLoopAttempt (socketEvents ?i evs s) = buildLoopAttempt s + 1"
    by (simp add: eq f handleBuildError_attempt)
  show "buildState (socketEvents ?i evs s)
           = (if MAX_FIX_ATTEMPTS \<le> buildLoopAttempt s + 1 then ERROR else DEBUGGING)"
    by (simp add: eq f handleBuildError_state)
  show "calls (socketEvents ?i evs s)
           = (if MAX_FIX_ATTEMPTS \<le> buildLoopAttempt s + 1 then calls s
              else calls s @ [Call_debugCode (prompt s) (currentBuildFiles s) e (library s)])"
    by (simp add: eq f handleBuildError_calls)
  show "prompt (socketEvents ?i evs s) = prompt s"
    and "library (socketEvents ?i evs s) = library s"
    and "token (socketEvents ?i evs s) = token s"
    and "currentBuildFiles (socketEvents ?i evs s) = currentBuildFiles s"
    and "lastBuildError (socketEvents ?i evs s) = e"
    and "hasUnrebuiltChanges (socketEvents ?i evs s) = hasUnrebuiltChanges s"
    by (simp_all add: eq f handleBuildError_more)
qed

lemma buildLoop_fail_final:
  assumes "awaitingBuild s"
    and "filter isOutcome
           (snd (ws_run (buildEvents c (length (calls s)) (currentBuildFiles s))
                   (newWebSocket (currentBuildFiles s) (token s)))) = [CB_onError e]"
    and "MAX_FIX_ATTEMPTS \<le> buildLoopAttempt s + 1"
  shows "buildState (buildLoop c s) = ERROR"
    and "buildLoopAttempt (buildLoop c s) = buildLoopAttempt s + 1"
    and "calls (buildLoop c s) = calls s"
proof -
  let ?s1 = "socketEvents (newestSocket s)
               (buildEvents c (length (calls s)) (currentBuildFiles s)) s"
  note b = build_failed [OF assms(1,2)]
  have "buildLoop c s = ?s1"
    using assms(3) by (subst buildLoop.simps) (simp add: Let_def b(2))
  with assms(3) show "buildState (buildLoop c s) = ERROR"
    and "buildLoopAttempt (buildLoop c s) = buildLoopAttempt s + 1"
    and "calls (buildLoop c s) = calls s"
    by (simp_all add: b)
qed

lemma buildLoop_fail_retry:
  assumes "awaitingBuild s"
    and "filter isOutcome
           (snd (ws_run (buildEvents c (length (calls s)) (currentBuildFiles s))
                   (newWebSocket (currentBuildFiles s) (token s)))) = [CB_onError e]"
    and "buildLoopAttempt s + 1 < MAX_FIX_ATTEMPTS"
    and "debugCode c (Suc (length (calls s))) (prompt s) (currentBuildFiles s) e (library s) = Inr d"
    and "fixed_files d = Some fixed" "fixed \<noteq> []"
  shows "\<exists>s2 k1 k2. buildLoop c s = buildLoop c s2 \<and> awaitingBuild s2
           \<and> buildLoopAttempt s2 = buildLoopAttempt s + 1
           \<and> calls s2 = calls s @ [k1, k2]
           \<and> isDebugCall k1 \<and> \<not> isBuildCall k1 \<and> isBuildCall k2 \<and> \<not> isDebugCall k2"
proof -
  let ?s1 = "socketEvents (newestSocket s)
               (buildEvents c (length (calls s)) (currentBuildFiles s)) s"
  let ?s2 = "runDebugStep_cont (Inr d) ?s1"
  note b = build_failed [OF assms(1,2)]
  note p = runDebugStep_cont_patch [OF assms(5,6), of ?s1]
  have "buildLoop c s = buildLoop c ?s2"
    using assms(3,4) by (subst buildLoop.simps) (simp add: Let_def b p(1))
  moreover have "awaitingBuild ?s2" by (rule p(7))
  moreover have "buildLoopAttempt ?s2 = buildLoopAttempt s + 1"
    by (simp add: runDebugStep_cont_attempt b)
  moreover have "calls ?s2 = calls s @ [Call_debugCode (prompt s) (currentBuildFiles s) e (library s),
      Call_buildBot (updateRequirements (updated_requirements d) (applyFixes (currentBuildFiles s) fixed))
        (token s)]"
    using assms(3) by (simp add: p(2) b)
  moreover have "isDebugCall (Call_debugCode (prompt s) (currentBuildFiles s) e (library s))"
    "\<not> isBuildCall (Call_debugCode (prompt s) (currentBuildFiles s) e (library s))"
    "isBuildCall (Call_buildBot (updateRequirements (updated_requirements d)
        (applyFixes (currentBuildFiles s) fixed)) (token s))"
    "\<not> isDebugCall (Call_buildBot (updateRequirements (updated_requirements d)
        (applyFixes (currentBuildFiles s) fixed)) (token s))"
    by (simp_all add: isBuildCall_def isDebugCall_def)
  ultimately show ?thesis by blast
qed

lemma buildLoop_fail_throw:
  assumes "awaitingBuild s"
    and "filter isOutcome
           (snd (ws_run (buildEvents c (length (calls s)) (currentBuildFiles s))
                   (newWebSocket (currentBuildFiles s) (token s)))) = [CB_onError e]"
    and "buildLoopAttempt s + 1 < MAX_FIX_ATTEMPTS"
    and "debugCode c (Suc (length (calls s))) (prompt s) (currentBuildFiles s) e (library s) = Inl m"
  shows "buildState (buildLoop c s) = ERROR"
    and "buildLoopAttempt (buildLoop c s) = buildLoopAttempt s + 1"
    and "calls (buildLoop c s)
           = calls s @ [Call_debugCode (prompt s) (currentBuildFiles s) e (library s)]"
proof -
  let ?s1 = "socketEvents (newestSocket s)
               (buildEvents c (length (calls s)) (currentBuildFiles s)) s"
  note b = build_failed [OF assms(1,2)]
  have "buildLoop c s = runDebugStep_cont (Inl m) ?s1"
    using assms(3,4) by (subst buildLoop.simps) (simp add: Let_def b runDebugStep_cont_throw)
  with assms(3) show "buildState (buildLoop c s) = ERROR"
    and "buildLoopAttempt (buildLoop c s) = buildLoopAttempt s + 1"
    and "calls (buildLoop c s)
           = calls s @ [Call_debugCode (prompt s) (currentBuildFiles s) e (library s)]"
    by (simp_all add: b runDebugStep_cont_throw runDebugStep_cont_attempt)
qed

lemma follows_refl: "follows s s"
  by (simp add: follows_def)

lemma follows_trans: "follows s t \<Longrightarrow> follows t u \<Longrightarrow> follows s u"
  by (auto simp: follows_def split: if_splits)

lemma follows_appCallback: "follows s (appCallback cb s)"
  by (cases cb)
     (simp_all add: follows_def appCallback_simps handleBuildError_def Let_def runDebugStep_sync_def
        addLog_def)

lemma follows_fold_appCallback: "follows s (fold appCallback cbs s)"
proof (induction cbs arbitrary: s)
  case Nil
  show ?case by (simp add: follows_refl)
next
  case (Cons cb cbs)
  from follows_trans [OF follows_appCallback Cons.IH] show ?case by simp
qed

lemma follows_socketEvent: "follows s (socketEvent i ev s)"
proof (cases "i < length (sockets s)")
  case True
  have "follows s (fold appCallback (snd (ws_dispatch ev (sockets s ! i))) s)"
    by (rule follows_fold_appCallback)
  then show ?thesis by (simp add: socketEvent_eq [OF True] follows_def)
next
  case False
  then show ?thesis by (simp add: socketEvent_def follows_refl)
qed

lemma follows_socketEvents: "follows s (socketEvents i evs s)"
  unfolding socketEvents_def
proof (induction evs arbitrary: s)
  case Nil
  show ?case by (simp add: follows_refl)
next
  case (Cons ev evs)
  from follows_trans [OF follows_socketEvent Cons.IH] show ?case by simp
qed

lemma foldl_applyFixLogged_eq:
  "foldl applyFixLogged p fixed
     = (applyFixes (fst p) fixed, (snd p)\<lparr>logs := logs (snd p) @ fixLogEntries (fst p) fixed\<rparr>)"
  unfolding applyFixes_def
  by (induction fixed arbitrary: p) (simp_all add: applyFixLogged_def addLog_def)

lemma follows_runDebugStep_cont: "follows s (runDebugStep_cont r s)"
  by (simp add: runDebugStep_cont_def runDebugStep_catch_def Let_def follows_def
      foldl_applyFixLogged_eq runBuildStep_def buildBot_def addLog_def
      split: sum.splits option.splits)

lemma follows_buildLoop: "follows s (buildLoop c s)"
proof (induction c s rule: buildLoop.induct)
  case (1 c s)
  let ?s1 = "socketEvents (newestSocket s) (buildEvents c (length (calls s)) (currentBuildFiles s)) s"
  let ?s2 = "runDebugStep_cont (debugCode c (length (calls ?s1)) (prompt ?s1) (currentBuildFiles ?s1)
                (lastBuildError ?s1) (library ?s1)) ?s1"
  have a: "follows s ?s1" by (rule follows_socketEvents)
  have b: "follows ?s1 ?s2" by (rule follows_runDebugStep_cont)
  show ?case
  proof (cases "buildState ?s1 = DEBUGGING")
    case False
    then have "buildLoop c s = ?s1" by (subst buildLoop.simps) (simp add: Let_def)
    with a show ?thesis by simp
  next
    case d: True
    show ?thesis
    proof (cases "buildState ?s2 = BUILDING")
      case False
      with d have "buildLoop c s = ?s2" by (subst buildLoop.simps) (simp add: Let_def)
      with follows_trans [OF a b] show ?thesis by simp
    next
      case True
      with d have e: "buildLoop c s = buildLoop c ?s2" by (subst buildLoop.simps) (simp add: Let_def)
      from "1.IH" [OF refl d refl True] have f: "follows ?s2 (buildLoop c ?s2)" .
      show ?thesis
        unfolding e by (rule follows_trans [OF follows_trans [OF a b] f])
    qed
  qed
qed

lemma failing_loop:
  assumes fails: "\<forall>n fs tok. \<exists>e. reportedOutcome (buildEvents c n fs) fs tok = [CB_onError e]"
    and repairs: "\<forall>n p fs e l. \<exists>d fixed.
                    debugCode c n p fs e l = Inr d \<and> fixed_files d = Some fixed \<and> fixed \<noteq> []"
    and w0: "awaitingBuild s0"
    and a0: "buildLoopAttempt s0 = 0"
  shows "\<exists>k1 k2 k3 k4.
           buildState (buildLoop c s0) = ERROR
         \<and> buildLoopAttempt (buildLoop c s0) = 3
         \<and> calls (buildLoop c s0) = calls s0 @ [k1, k2, k3, k4]
         \<and> isDebugCall k1 \<and> \<not> isBuildCall k1 \<and> isBuildCall k2 \<and> \<not> isDebugCall k2
         \<and> isDebugCall k3 \<and> \<not> isBuildCall k3 \<and> isBuildCall k4 \<and> \<not> isDebugCall k4"
proof -
  \<comment> \<open>first failure, first repair\<close>
  from fails obtain e1 where
    e1: "filter isOutcome (snd (ws_run (buildEvents c (length (calls s0)) (currentBuildFiles s0))
           (newWebSocket (currentBuildFiles s0) (token s0)))) = [CB_onError e1]"
    unfolding reportedOutcome_def by blast
  from repairs obtain d1 fixed1 where
    d1: "debugCode c (Suc (length (calls s0))) (prompt s0) (currentBuildFiles s0) e1 (library s0) = Inr d1"
    and f1: "fixed_files d1 = Some fixed1" "fixed1 \<noteq> []"
    by blast
  have l1: "buildLoopAttempt s0 + 1 < MAX_FIX_ATTEMPTS"
    by (simp add: a0 MAX_FIX_ATTEMPTS_def)
  from buildLoop_fail_retry [OF w0 e1 l1 d1 f1] obtain s2 k1 k2 where
    b1: "buildLoop c s0 = buildLoop c s2" and w2: "awaitingBuild s2"
    and a2: "buildLoopAttempt s2 = buildLoopAttempt s0 + 1"
    and c2: "calls s2 = calls s0 @ [k1, k2]"
    and k12: "isDebugCall k1" "\<not> isBuildCall k1" "isBuildCall k2" "\<not> isDebugCall k2"
    by blast
  \<comment> \<open>second failure, second repair\<close>
  from fails obtain e2 where
    e2: "filter isOutcome (snd (ws_run (buildEvents c (length (calls s2)) (currentBuildFiles s2))
           (newWebSocket (currentBuildFiles s2) (token s2)))) = [CB_onError e2]"
    unfolding reportedOutcome_def by blast
  from repairs obtain d2 fixed2 where
    d2: "debugCode c (Suc (length (calls s2))) (prompt s2) (currentBuildFiles s2) e2 (library s2) = Inr d2"
    and f2: "fixed_files d2 = Some fixed2" "fixed2 \<noteq> []"
    by blast
  have l2: "buildLoopAttempt s2 + 1 < MAX_FIX_ATTEMPTS"
    by (simp add: a2 a0 MAX_FIX_ATTEMPTS_def)
  from buildLoop_fail_retry [OF w2 e2 l2 d2 f2] obtain s4 k3 k4 where
    b2: "buildLoop c s2 = buildLoop c s4" and w4: "awaitingBuild s4"
    and a4: "buildLoopAttempt s4 = buildLoopAttempt s2 + 1"
    and c4: "calls s4 = calls s2 @ [k3, k4]"
    and k34: "isDebugCall k3" "\<not> isBuildCall k3" "isBuildCall k4" "\<not> isDebugCall k4"
    by blast
  \<comment> \<open>third failure: no repair is requested\<close>
  from fails obtain e3 where
    e3: "filter isOutcome (snd (ws_run (buildEvents c (length (calls s4)) (currentBuildFiles s4))
           (newWebSocket (currentBuildFiles s4) (token s4)))) = [CB_onError e3]"
    unfolding reportedOutcome_def by blast
  have l3: "MAX_FIX_ATTEMPTS \<le> buildLoopAttempt s4 + 1"
    by (simp add: a4 a2 a0 MAX_FIX_ATTEMPTS_def)
  note fin = buildLoop_fail_final [OF w4 e3 l3]
  have r: "buildLoop c s0 = buildLoop c s4"
    using b1 b2 by simp
  have st: "buildState (buildLoop c s0) = ERROR" unfolding r by (rule fin(1))
  have at: "buildLoopAttempt (buildLoop c s0) = 3"
    unfolding r by (simp add: fin(2) a4 a2 a0)
  have cl: "calls (buildLoop c s0) = calls s0 @ [k1, k2, k3, k4]"
    unfolding r by (simp add: fin(3) c4 c2)
  from st at cl k12 k34 show ?thesis by blast
qed

text \<open>
  \<^bold>\<open>C1\<close>.  A build run starts with \<open>runBuildStep\<close> and the attempt counter 0.  If the build
  client reports a failure for every build request, and every repair request is answered with
  at least one patched file (a repair that fails is the subject of C5), the session ends in
  \<open>ERROR\<close> with the counter at 3, after the requests build, repair, build, repair, build in
  this order: three build attempts and two repair invocations, and no repair request after
  the third failure.
\<close>

theorem always_failing_build_three_attempts:
  assumes fails: "\<forall>n fs tok. \<exists>e. reportedOutcome (buildEvents c n fs) fs tok = [CB_onError e]"
    and repairs: "\<forall>n p fs e l. \<exists>d fixed.
                    debugCode c n p fs e l = Inr d \<and> fixed_files d = Some fixed \<and> fixed \<noteq> []"
    and zero: "buildLoopAttempt s = 0"
  shows "buildState (buildLoop c (runBuildStep filesToBuild s)) = ERROR
       \<and> buildLoopAttempt (buildLoop c (runBuildStep filesToBuild s)) = 3
       \<and> map isBuildCall (drop (length (calls s)) (calls (buildLoop c (runBuildStep filesToBuild s))))
           = [True, False, True, False, True]
       \<and> map isDebugCall (drop (length (calls s)) (calls (buildLoop c (runBuildStep filesToBuild s))))
           = [False, True, False, True, False]
       \<and> buildAttempts (buildLoop c (runBuildStep filesToBuild s)) = buildAttempts s + 3
       \<and> debugInvocations (buildLoop c (runBuildStep filesToBuild s)) = debugInvocations s + 2"
proof -
  define s0 where "s0 = runBuildStep filesToBuild s"
  have w0: "awaitingBuild s0" unfolding s0_def by (rule runBuildStep_awaiting)
  have a0: "buildLoopAttempt s0 = 0"
    by (simp add: s0_def runBuildStep_fields zero)
  have c0: "calls s0 = calls s @ [Call_buildBot filesToBuild (token s)]"
    by (simp add: s0_def runBuildStep_fields)
  from failing_loop [OF fails repairs w0 a0] obtain k1 k2 k3 k4 where
    st: "buildState (buildLoop c s0) = ERROR"
    and at: "buildLoopAttempt (buildLoop c s0) = 3"
    and cl: "calls (buildLoop c s0) = calls s0 @ [k1, k2, k3, k4]"
    and k: "isDebugCall k1" "\<not> isBuildCall k1" "isBuildCall k2" "\<not> isDebugCall k2"
      "isDebugCall k3" "\<not> isBuildCall k3" "isBuildCall k4" "\<not> isDebugCall k4"
    by blast
  have bc: "isBuildCall (Call_buildBot filesToBuild (token s))"
    and dc: "\<not> isDebugCall (Call_buildBot filesToBuild (token s))"
    by (simp_all add: isBuildCall_def isDebugCall_def)
  show ?thesis
    unfolding s0_def [symmetric] buildAttempts_def debugInvocations_def
    using st at cl c0 k bc dc by simp
qed

text \<open>The theorem for a build client that always reports \<open>boom\<close> and a repair service that
  always patches \<open>main.py\<close>, from the state of a fresh \<open>App\<close>.\<close>

theorem always_failing_build_three_attempts_witness:
  "(\<forall>n fs tok. \<exists>e. reportedOutcome (buildEvents failingExecutor n fs) fs tok = [CB_onError e])
   \<and> (\<forall>n p fs e l. \<exists>d fixed.
          debugCode failingExecutor n p fs e l = Inr d \<and> fixed_files d = Some fixed \<and> fixed \<noteq> [])
   \<and> buildLoopAttempt initialApp = 0
   \<and> buildState (buildLoop failingExecutor (runBuildStep [] initialApp)) = ERROR
   \<and> buildLoopAttempt (buildLoop failingExecutor (runBuildStep [] initialApp)) = 3
   \<and> buildAttempts (buildLoop failingExecutor (runBuildStep [] initialApp)) = 3
   \<and> debugInvocations (buildLoop failingExecutor (runBuildStep [] initialApp)) = 2"
proof -
  have h1: "\<forall>n fs tok. \<exists>e. reportedOutcome (buildEvents failingExecutor n fs) fs tok = [CB_onError e]"
    by (simp add: failingExecutor_def buildFailsScript_outcome)
  have h2: "\<forall>n p fs e l. \<exists>d fixed.
          debugCode failingExecutor n p fs e l = Inr d \<and> fixed_files d = Some fixed \<and> fixed \<noteq> []"
    by (simp add: failingExecutor_def)
  have h3: "buildLoopAttempt initialApp = 0"
    by (simp add: initialApp_def)
  have z: "buildAttempts initialApp = 0" "debugInvocations initialApp = 0"
    by (simp_all add: buildAttempts_def debugInvocations_def initialApp_def)
  from always_failing_build_three_attempts [OF h1 h2 h3, of "[]"] h1 h2 h3 z
  show ?thesis by simp
qed

text \<open>
  \<^bold>\<open>C5\<close>.  When the repair request throws, or its answer has no \<open>fixed_files\<close> or an empty
  list of them, the continuation of \<open>runDebugStep\<close> ends in \<open>ERROR\<close> whatever the attempt
  counter is, makes no request to a collaborator, opens no build connection and leaves the
  counter as it is.  In a run that starts with the counter 0, whose first build fails and whose
  first repair request throws, the session ends in \<open>ERROR\<close> with the counter 1 after one build
  attempt and one repair invocation.
\<close>

theorem repair_failure_escalates:
  "(\<forall>m s. buildState (runDebugStep_cont (Inl m) s) = ERROR
          \<and> calls (runDebugStep_cont (Inl m) s) = calls s
          \<and> sockets (runDebugStep_cont (Inl m) s) = sockets s
          \<and> buildLoopAttempt (runDebugStep_cont (Inl m) s) = buildLoopAttempt s)
   \<and> (\<forall>(d :: DebugResponse) s. fixed_files d = None \<or> fixed_files d = Some [] \<longrightarrow>
          buildState (runDebugStep_cont (Inr d) s) = ERROR
          \<and> calls (runDebugStep_cont (Inr d) s) = calls s
          \<and> sockets (runDebugStep_cont (Inr d) s) = sockets s
          \<and> buildLoopAttempt (runDebugStep_cont (Inr d) s) = buildLoopAttempt s)
   \<and> (\<forall>c s filesToBuild e m.
          buildLoopAttempt s = 0
          \<and> reportedOutcome (buildEvents c (Suc (length (calls s))) filesToBuild) filesToBuild (token s)
              = [CB_onError e]
          \<and> debugCode c (length (calls s) + 2) (prompt s) filesToBuild e (library s) = Inl m \<longrightarrow>
          buildState (buildLoop c (runBuildStep filesToBuild s)) = ERROR
          \<and> buildLoopAttempt (buildLoop c (runBuildStep filesToBuild s)) = 1
          \<and> buildAttempts (buildLoop c (runBuildStep filesToBuild s)) = buildAttempts s + 1
          \<and> debugInvocations (buildLoop c (runBuildStep filesToBuild s)) = debugInvocations s + 1)"
proof (intro conjI allI impI)
  fix m and s :: App
  show "buildState (runDebugStep_cont (Inl m) s) = ERROR"
    and "calls (runDebugStep_cont (Inl m) s) = calls s"
    and "sockets (runDebugStep_cont (Inl m) s) = sockets s"
    by (rule runDebugStep_cont_throw)+
  show "buildLoopAttempt (runDebugStep_cont (Inl m) s) = buildLoopAttempt s"
    by (rule runDebugStep_cont_attempt)
next
  fix d :: DebugResponse and s :: App
  assume a: "fixed_files d = None \<or> fixed_files d = Some []"
  show "buildState (runDebugStep_cont (Inr d) s) = ERROR"
    and "calls (runDebugStep_cont (Inr d) s) = calls s"
    and "sockets (runDebugStep_cont (Inr d) s) = sockets s"
    by (rule runDebugStep_cont_empty [OF a])+
  show "buildLoopAttempt (runDebugStep_cont (Inr d) s) = buildLoopAttempt s"
    by (rule runDebugStep_cont_attempt)
next
  fix c :: Collaborators and s :: App and filesToBuild e m
  assume a: "buildLoopAttempt s = 0
          \<and> reportedOutcome (buildEvents c (Suc (length (calls s))) filesToBuild) filesToBuild (token s)
              = [CB_onError e]
          \<and> debugCode c (length (calls s) + 2) (prompt s) filesToBuild e (library s) = Inl m"
  define s0 where "s0 = runBuildStep filesToBuild s"
  have w: "awaitingBuild s0" unfolding s0_def by (rule runBuildStep_awaiting)
  have f0: "buildLoopAttempt s0 = 0" "calls s0 = calls s @ [Call_buildBot filesToBuild (token s)]"
    "currentBuildFiles s0 = filesToBuild" "prompt s0 = prompt s" "library s0 = library s"
    "token s0 = token s"
    using a by (simp_all add: s0_def runBuildStep_fields runBuildStep_def buildBot_def)
  have o: "filter isOutcome (snd (ws_run (buildEvents c (length (calls s0)) (currentBuildFiles s0))
             (newWebSocket (currentBuildFiles s0) (token s0)))) = [CB_onError e]"
    using a by (simp add: f0 reportedOutcome_def)
  have l: "buildLoopAttempt s0 + 1 < MAX_FIX_ATTEMPTS"
    by (simp add: f0 MAX_FIX_ATTEMPTS_def)
  have t: "debugCode c (Suc (length (calls s0))) (prompt s0) (currentBuildFiles s0) e (library s0) = Inl m"
    using a by (simp add: f0)
  note r = buildLoop_fail_throw [OF w o l t]
  have cl: "calls (buildLoop c s0)
     = calls s @ [Call_buildBot filesToBuild (token s), Call_debugCode (prompt s) filesToBuild e (library s)]"
    by (simp add: r(3) f0)
  show "buildState (buildLoop c (runBuildStep filesToBuild s)) = ERROR"
    unfolding s0_def [symmetric] by (rule r(1))
  show "buildLoopAttempt (buildLoop c (runBuildStep filesToBuild s)) = 1"
    unfolding s0_def [symmetric] by (simp add: r(2) f0)
  show "buildAttempts (buildLoop c (runBuildStep filesToBuild s)) = buildAttempts s + 1"
    unfolding s0_def [symmetric] buildAttempts_def cl
    by (simp add: isBuildCall_def)
  show "debugInvocations (buildLoop c (runBuildStep filesToBuild s)) = debugInvocations s + 1"
    unfolding s0_def [symmetric] debugInvocations_def cl
    by (simp add: isDebugCall_def)
qed

text \<open>The theorem for an empty patch in a session with one attempt used, and for the run of
  a fresh \<open>App\<close> with a repair service that throws.\<close>

theorem repair_failure_escalates_witness:
  "(fixed_files \<lparr>fixed_files = Some [], updated_requirements = None, retry_cmd = [], confidence_percent = ''0''\<rparr> = None
      \<or> fixed_files \<lparr>fixed_files = Some [], updated_requirements = None, retry_cmd = [], confidence_percent = ''0''\<rparr>
          = Some [])
   \<and> buildState (runDebugStep_cont
        (Inr \<lparr>fixed_files = Some [], updated_requirements = None, retry_cmd = [], confidence_percent = ''0''\<rparr>)
        (initialApp\<lparr>buildState := DEBUGGING, buildLoopAttempt := 1\<rparr>)) = ERROR
   \<and> buildLoopAttempt initialApp = 0
   \<and> reportedOutcome (buildEvents throwingDebugger (Suc (length (calls initialApp))) []) []
        (token initialApp) = [CB_onError ''boom'']
   \<and> debugCode throwingDebugger (length (calls initialApp) + 2) (prompt initialApp) [] ''boom''
        (library initialApp) = Inl ''quota exceeded''
   \<and> buildState (buildLoop throwingDebugger (runBuildStep [] initialApp)) = ERROR
   \<and> buildLoopAttempt (buildLoop throwingDebugger (runBuildStep [] initialApp)) = 1
   \<and> buildAttempts (buildLoop throwingDebugger (runBuildStep [] initialApp)) = 1
   \<and> debugInvocations (buildLoop throwingDebugger (runBuildStep [] initialApp)) = 1"
proof -
  let ?d = "\<lparr>fixed_files = Some [], updated_requirements = None, retry_cmd = [], confidence_percent = ''0''\<rparr>"
  note t = repair_failure_escalates
  have h1: "fixed_files ?d = None \<or> fixed_files ?d = Some []" by simp
  have h2: "buildLoopAttempt initialApp = 0
          \<and> reportedOutcome (buildEvents throwingDebugger (Suc (length (calls initialApp))) []) []
               (token initialApp) = [CB_onError ''boom'']
          \<and> debugCode throwingDebugger (length (calls initialApp) + 2) (prompt initialApp) [] ''boom''
               (library initialApp) = Inl ''quota exceeded''"
    by (simp add: initialApp_def throwingDebugger_def failingExecutor_def buildFailsScript_outcome)
  have z: "buildAttempts initialApp = 0" "debugInvocations initialApp = 0"
    by (simp_all add: buildAttempts_def debugInvocations_def initialApp_def)
  from t h1 have c1: "buildState (runDebugStep_cont (Inr ?d)
        (initialApp\<lparr>buildState := DEBUGGING, buildLoopAttempt := 1\<rparr>)) = ERROR"
    by blast
  from t h2 have c2: "buildState (buildLoop throwingDebugger (runBuildStep [] initialApp)) = ERROR
          \<and> buildLoopAttempt (buildLoop throwingDebugger (runBuildStep [] initialApp)) = 1
          \<and> buildAttempts (buildLoop throwingDebugger (runBuildStep [] initialApp))
               = buildAttempts initialApp + 1
          \<and> debugInvocations (buildLoop throwingDebugger (runBuildStep [] initialApp))
               = debugInvocations initialApp + 1"
    by blast
  from h1 c1 h2 c2 z show ?thesis by simp
qed

subsection \<open>The example sessions\<close>

lemma closeRuntimeLogStream_build [simp]:
  "sockets (closeRuntimeLogStream s) = sockets s"
  "token (closeRuntimeLogStream s) = token s"
  "buildState (closeRuntimeLogStream s) = buildState s"
  "hasUnrebuiltChanges (closeRuntimeLogStream s) = hasUnrebuiltChanges s"
  "generatedFiles (closeRuntimeLogStream s) = generatedFiles s"
  "logs (closeRuntimeLogStream s) = logs s"
  "runtimeState (closeRuntimeLogStream s) = runtimeState s"
  by (simp_all add: closeRuntimeLogStream_def split: option.splits)

lemma clearCountdownInterval_build [simp]:
  "sockets (clearCountdownInterval s) = sockets s"
  "token (clearCountdownInterval s) = token s"
  "buildState (clearCountdownInterval s) = buildState s"
  "hasUnrebuiltChanges (clearCountdownInterval s) = hasUnrebuiltChanges s"
  "generatedFiles (clearCountdownInterval s) = generatedFiles s"
  "logs (clearCountdownInterval s) = logs s"
  "runtimeState (clearCountdownInterval s) = runtimeState s"
  by (simp_all add: clearCountdownInterval_def split: option.splits)

lemma startBot_build:
  "sockets (startBot rs r s) = sockets s"
  "token (startBot rs r s) = token s"
  "buildState (startBot rs r s) = buildState s"
  "generatedFiles (startBot rs r s) = generatedFiles s"
  by (simp_all add: startBot_def startBot_cont_def startBot_sync_def Let_def addRuntimeLog_def
      split: sum.splits)

lemma startBot_running: "runtimeState (startBot STOPPED (Inr u) s) = RUNNING"
  by (simp add: startBot_def startBot_cont_def startBot_sync_def Let_def addRuntimeLog_def)

lemma startBot_fresh:
  assumes "intervals s = []"
  shows "runtimeState (startBot STOPPED (Inr u) s) = RUNNING"
    and "countdown (startBot STOPPED (Inr u) s) = 600"
    and "intervals (startBot STOPPED (Inr u) s) = [\<lparr>cleared = False, iv_runtimeState = STOPPED\<rparr>]"
    and "countdownIntervalRef (startBot STOPPED (Inr u) s) = Some 0"
    and "calls (startBot STOPPED (Inr u) s) = calls s @ [Call_runBot]"
  using assms
  by (simp_all add: startBot_def startBot_cont_def startBot_sync_def Let_def addRuntimeLog_def
      RUNTIME_DURATION_SECONDS_def)

lemma successSession_facts:
  "buildState successSession = SUCCESS"
  "runtimeState successSession = STOPPED"
  "intervals successSession = []"
  "map name (generatedFiles successSession) = [''main.py'', ''requirements.txt'', ''Dockerfile'',
     ''docker-compose.yml'', ''README.md'']"
  "map resolved (sockets successSession) = [True]"
  "length (logs successSession) = 14"
  by code_simp+


lemma runningSession_eq: "runningSession = startBot STOPPED (Inr ()) successSession"
  by (simp add: runningSession_def autoStartEffect_def successSession_facts okBot_def echoBot_def)

subsection \<open>Reset\<close>

lemma handleReset_returns:
  assumes "r_runtimeState r = STOPPED \<or> res = Inr ()"
  shows "fst (handleReset r res s) = Inr ()" and "sessionCleared (snd (handleReset r res s))"
proof -
  have f: "generatedFiles (resetBuild t) = []" "logs (resetBuild t) = []"
    "buildLoopAttempt (resetBuild t) = 0" for t
    by (simp_all add: resetBuild_def)
  have k: "buildLoopAttempt (closeRuntimeLogStream (clearCountdownInterval t)) = buildLoopAttempt t"
    for t
    by (simp add: closeRuntimeLogStream_def clearCountdownInterval_def split: option.splits)
  have c: "sessionCleared (resetRuntime (resetBuild t))" for t
    by (simp add: sessionCleared_def resetRuntime_def f k)
  from assms show "fst (handleReset r res s) = Inr ()"
    by (auto simp: handleReset_def stopBot_def)
  from assms show "sessionCleared (snd (handleReset r res s))"
    by (auto simp: handleReset_def stopBot_def c)
qed

lemma stopBot_sync_fields:
  "buildState (stopBot_sync s) = buildState s"
  "runtimeState (stopBot_sync s) = runtimeState s"
  "generatedFiles (stopBot_sync s) = generatedFiles s"
  "logs (stopBot_sync s) = logs s"
  "hasUnrebuiltChanges (stopBot_sync s) = hasUnrebuiltChanges s"
  "sockets (stopBot_sync s) = sockets s"
  "token (stopBot_sync s) = token s"
  "runtimeLogs (stopBot_sync s) = runtimeLogs s @ [\<lparr>message = ''Stopping bot...'', type = Log\<rparr>]"
  "calls (stopBot_sync s) = calls s @ [Call_stopBot]"
  by (simp_all add: stopBot_sync_def Let_def addRuntimeLog_def closeRuntimeLogStream_def
      clearCountdownInterval_def split: option.splits)

text \<open>
  \<^bold>\<open>C9\<close>: the code does not do what the claim says.  \<open>handleReset\<close> awaits \<open>stopBot\<close> and has
  no \<open>try\<close>, and \<open>stopBot\<close> awaits \<open>backend.stopBot\<close> and has none either (\<open>startBot\<close> has
  one around \<open>backend.runBot\<close>).  In \<open>runningSession\<close> the bot runs and the reset button is
  shown.  When the stop request of the click is rejected, \<open>handleReset\<close> ends at the
  \<open>await\<close>: the session is \<open>runningSession\<close> after the first part of \<open>stopBot\<close>, still in
  \<open>SUCCESS\<close> and \<open>RUNNING\<close>, with its five files and its fourteen log entries, and the
  runtime log is not empty.  Whenever the stop request returns, and whenever the render of the
  handler has the bot stopped, \<open>handleReset\<close> returns and the session is cleared as the claim
  says; \<open>RUNTIME_DURATION_SECONDS\<close> is 600.
\<close>

theorem reset_skipped_when_stop_rejected:
  "botRunnerShown runningSession
   \<and> runtimeState runningSession = RUNNING
   \<and> handleReset (render runningSession) (Inl ''Failed to fetch'') runningSession
       = (Inl ''Failed to fetch'', stopBot_sync runningSession)
   \<and> resetRejectedSession = stopBot_sync runningSession
   \<and> \<not> sessionCleared resetRejectedSession
   \<and> buildState resetRejectedSession = SUCCESS
   \<and> runtimeState resetRejectedSession = RUNNING
   \<and> length (generatedFiles resetRejectedSession) = 5
   \<and> length (logs resetRejectedSession) = 14
   \<and> runtimeLogs resetRejectedSession \<noteq> []
   \<and> (\<forall>r s. fst (handleReset r (Inr ()) s) = Inr ()
              \<and> sessionCleared (snd (handleReset r (Inr ()) s)))
   \<and> (\<forall>r res s. fst (handleReset (r\<lparr>r_runtimeState := STOPPED\<rparr>) res s) = Inr ()
              \<and> sessionCleared (snd (handleReset (r\<lparr>r_runtimeState := STOPPED\<rparr>) res s)))
   \<and> RUNTIME_DURATION_SECONDS = 600"
proof -
  have b: "botRunnerShown runningSession"
    by (simp add: botRunnerShown_def runningSession_eq startBot_build successSession_facts)
  have r: "runtimeState runningSession = RUNNING"
    by (simp add: runningSession_eq startBot_running)
  have h: "handleReset (render runningSession) (Inl ''Failed to fetch'') runningSession
             = (Inl ''Failed to fetch'', stopBot_sync runningSession)"
    by (simp add: handleReset_def stopBot_def render_def r)
  have e: "resetRejectedSession = stopBot_sync runningSession"
    by (simp add: resetRejectedSession_def clickReset_def b h)
  have s: "buildState resetRejectedSession = SUCCESS"
    by (simp add: e stopBot_sync_fields runningSession_eq startBot_build successSession_facts)
  have u: "runtimeState resetRejectedSession = RUNNING"
    by (simp add: e stopBot_sync_fields r)
  have g: "length (generatedFiles resetRejectedSession) = 5"
    using arg_cong [OF successSession_facts(4), of length]
    by (simp add: e stopBot_sync_fields runningSession_eq startBot_build)
  have l: "length (logs resetRejectedSession) = 14"
    by (simp add: e stopBot_sync_fields runningSession_eq successSession_facts
        startBot_def startBot_cont_def startBot_sync_def Let_def addRuntimeLog_def)
  have rl: "runtimeLogs resetRejectedSession \<noteq> []"
    by (simp add: e stopBot_sync_fields)
  from u have n: "\<not> sessionCleared resetRejectedSession"
    by (simp add: sessionCleared_def)
  have p: "fst (handleReset r (Inr ()) s) = Inr ()
           \<and> sessionCleared (snd (handleReset r (Inr ()) s))" for r s
    using handleReset_returns [of r "Inr ()" s] by simp
  have q: "fst (handleReset (r\<lparr>r_runtimeState := STOPPED\<rparr>) res s) = Inr ()
           \<and> sessionCleared (snd (handleReset (r\<lparr>r_runtimeState := STOPPED\<rparr>) res s))" for r res s
    using handleReset_returns [of "r\<lparr>r_runtimeState := STOPPED\<rparr>" res s] by simp
  have d: "RUNTIME_DURATION_SECONDS = 600"
    by (simp add: RUNTIME_DURATION_SECONDS_def)
  from b r h e n s u g l rl p q d show ?thesis by blast
qed

subsection \<open>Rebuild\<close>

lemma handleRebuild_returns:
  assumes "r_runtimeState r = STOPPED \<or> res = Inr ()"
  shows "handleRebuild r res s
           = (Inr (), handleRebuild_cont r
                        (if r_runtimeState r \<noteq> STOPPED then stopBot_cont (handleRebuild_sync r s)
                         else handleRebuild_sync r s))"
  using assms by (auto simp: handleRebuild_def handleRebuild_sync_def stopBot_def Let_def)

lemma handleRebuild_rejected:
  assumes "r_runtimeState r \<noteq> STOPPED"
  shows "handleRebuild r (Inl msg) s = (Inl msg, handleRebuild_sync r s)"
  using assms by (simp add: handleRebuild_def handleRebuild_sync_def stopBot_def Let_def)

lemma handleRebuild_state:
  assumes "r_runtimeState r = STOPPED \<or> res = Inr ()"
  shows "buildState (snd (handleRebuild r res s)) = BUILDING"
  by (simp add: handleRebuild_returns [OF assms] handleRebuild_cont_def Let_def runBuildStep_fields)

lemma flag_generateFiles:
  "hasUnrebuiltChanges (snd (generateFiles c st us fl ftb s)) = hasUnrebuiltChanges s"
  by (induction fl arbitrary: ftb s) (simp_all add: Let_def addLog_def split: sum.splits)

lemma flag_runBuildStep: "hasUnrebuiltChanges (runBuildStep fs s) = hasUnrebuiltChanges s"
  by (simp add: runBuildStep_def buildBot_def Let_def addLog_def)

lemma flag_startCodeGeneration:
  "hasUnrebuiltChanges (startCodeGeneration c us s) = hasUnrebuiltChanges s"
proof -
  have g: "hasUnrebuiltChanges s7 = hasUnrebuiltChanges s6"
    if "generateFiles c st us fl [] s6 = (x, s7)" for st fl s6 x s7
    using flag_generateFiles [of c st us fl "[]" s6] that by simp
  show ?thesis
    by (auto simp: startCodeGeneration_def startCodeGeneration_catch_def Let_def addLog_def
        flag_runBuildStep g split: sum.splits prod.splits)
qed

lemma flag_handleStartConfiguration:
  "hasUnrebuiltChanges (handleStartConfiguration c s)
     = (if prompt s = [] \<or> token s = [] then hasUnrebuiltChanges s else False)"
  by (simp add: handleStartConfiguration_def Let_def addLog_def flag_startCodeGeneration
      resetRuntime_def resetBuild_def split: sum.splits option.splits)

lemma flag_handleBuildError:
  "hasUnrebuiltChanges (handleBuildError e s) = hasUnrebuiltChanges s"
  by (simp add: handleBuildError_def runDebugStep_sync_def Let_def addLog_def)

lemma flag_runDebugStep_cont:
  "hasUnrebuiltChanges (runDebugStep_cont d s) = hasUnrebuiltChanges s"
  by (simp add: runDebugStep_cont_def runDebugStep_catch_def Let_def
      foldl_applyFixLogged_eq runBuildStep_def buildBot_def addLog_def
      split: sum.splits option.splits)

lemma flag_startBot: "hasUnrebuiltChanges (startBot rs x s) = hasUnrebuiltChanges s"
  by (simp add: startBot_def startBot_cont_def startBot_sync_def Let_def addRuntimeLog_def
      split: sum.splits)

lemma flag_stopBot: "hasUnrebuiltChanges (snd (stopBot rs res s)) = hasUnrebuiltChanges s"
  by (simp add: stopBot_def stopBot_cont_def stopBot_sync_fields addRuntimeLog_def
      split: sum.splits)

lemma flag_handleRebuild:
  "hasUnrebuiltChanges (snd (handleRebuild r res s)) = hasUnrebuiltChanges s"
  by (simp add: handleRebuild_def handleRebuild_cont_def stopBot_def stopBot_cont_def
      stopBot_sync_fields Let_def flag_runBuildStep resetRuntime_def addLog_def addRuntimeLog_def
      split: sum.splits)

lemma flag_fire: "hasUnrebuiltChanges (fire stop i s) = hasUnrebuiltChanges s"
  by (simp add: fire_def countdownCallback_def flag_stopBot)

lemma flag_fold_fire: "hasUnrebuiltChanges (fold (fire stop) is s) = hasUnrebuiltChanges s"
  by (induction "is" arbitrary: s) (simp_all add: flag_fire)

lemma flag_ticks: "hasUnrebuiltChanges (ticks stop n s) = hasUnrebuiltChanges s"
  by (induction n arbitrary: s) (simp_all add: tick_def flag_fold_fire)

lemma flag_stream:
  "hasUnrebuiltChanges (stream_onLog i l s) = hasUnrebuiltChanges s"
  "hasUnrebuiltChanges (stream_onError i res s) = hasUnrebuiltChanges s"
  by (simp_all add: stream_onLog_def stream_onError_def Let_def flag_stopBot addRuntimeLog_def)

lemma handleFileUpdate_fields:
  "hasUnrebuiltChanges (handleFileUpdate f c s)"
  "buildState (handleFileUpdate f c s) = buildState s"
  "map name (generatedFiles (handleFileUpdate f c s)) = map name (generatedFiles s)"
  by (simp_all add: handleFileUpdate_def comp_def if_distrib cong: if_cong)

lemma echoBot_fails:
  "\<forall>n fs tok. \<exists>e. reportedOutcome (buildEvents echoBot n fs) fs tok = [CB_onError e]"
  by (simp add: echoBot_def buildFailsScript_outcome)

lemma echoBot_repairs:
  "\<forall>n p fs e l. \<exists>d fixed.
      debugCode echoBot n p fs e l = Inr d \<and> fixed_files d = Some fixed \<and> fixed \<noteq> []"
  by (simp add: echoBot_def)

lemma buildingSession_facts:
  "awaitingBuild buildingSession"
  "buildLoopAttempt buildingSession = 0"
  "\<not> hasUnrebuiltChanges buildingSession"
  "buildAttempts buildingSession = 1"
  by code_simp+

text \<open>
  \<^bold>\<open>C3\<close>, as stated, fails.  \<open>failedBuildSession\<close> is the end of the build and debug loop of
  \<open>buildingSession\<close>: it is in \<open>ERROR\<close> after three failed build attempts; nothing has been
  edited, the Rebuild button is disabled, and a click leaves the session in \<open>ERROR\<close>.
\<close>

theorem rebuild_guard_counterexample:
  "buildState buildingSession = BUILDING
   \<and> failedBuildSession = buildLoop echoBot buildingSession
   \<and> buildState failedBuildSession = ERROR
   \<and> buildAttempts failedBuildSession = 3
   \<and> \<not> hasUnrebuiltChanges failedBuildSession
   \<and> \<not> rebuildAvailable failedBuildSession
   \<and> buildState (clickRebuild (Inr ()) failedBuildSession) = ERROR"
proof -
  have b: "buildState buildingSession = BUILDING" by code_simp
  have e: "failedBuildSession = buildLoop echoBot buildingSession"
    by (simp add: failedBuildSession_def buildingSession_def)
  from failing_loop [OF echoBot_fails echoBot_repairs buildingSession_facts(1,2)]
  obtain k1 k2 k3 k4 where
    st: "buildState failedBuildSession = ERROR"
    and cl: "calls failedBuildSession = calls buildingSession @ [k1, k2, k3, k4]"
    and k: "\<not> isBuildCall k1" "isBuildCall k2" "\<not> isBuildCall k3" "isBuildCall k4"
    unfolding e by blast
  have n: "buildAttempts failedBuildSession = 3"
    using buildingSession_facts(4) k by (simp add: buildAttempts_def cl)
  have "follows buildingSession failedBuildSession"
    unfolding e by (rule follows_buildLoop)
  with buildingSession_facts(3) have f: "\<not> hasUnrebuiltChanges failedBuildSession"
    by (auto simp: follows_def split: if_splits)
  then have r: "\<not> rebuildAvailable failedBuildSession"
    by (simp add: rebuildAvailable_def rebuildDisabled_def)
  then have c: "clickRebuild (Inr ()) failedBuildSession = failedBuildSession"
    by (simp add: clickRebuild_def)
  from b e st n f r show ?thesis by (simp add: c)
qed

text \<open>
  \<^bold>\<open>C3\<close>, amended.  Rebuild is available exactly when \<open>BotRunner\<close> is shown (the build state
  is \<open>SUCCESS\<close> or \<open>ERROR\<close>) and \<open>hasUnrebuiltChanges\<close> is set; \<open>ERROR\<close> alone does not
  enable it.  When it is available and the request to stop a running bot returns (or the bot
  is stopped, so that no request is made), a click takes the session to \<open>BUILDING\<close>; when it
  is not available, a click changes nothing.  Saving an edit of a file of the file set makes
  it available.  The flag \<open>hasUnrebuiltChanges\<close> is not set at the start; \<open>handleFileUpdate\<close>
  sets it; the completion callback of a build and \<open>resetBuild\<close> clear it, and so do the
  handlers that call \<open>resetBuild\<close> (\<open>handleReset\<close> when it returns,
  \<open>handleStartConfiguration\<close> when prompt and token are given); every other handler keeps
  it as it is, \<open>handleRebuild\<close> too.
\<close>

theorem rebuild_guard:
  "(\<forall>s. rebuildAvailable s = (botRunnerShown s \<and> hasUnrebuiltChanges s))
   \<and> (\<forall>s res. rebuildAvailable s \<and> (runtimeState s = STOPPED \<or> res = Inr ()) \<longrightarrow>
         buildState (clickRebuild res s) = BUILDING)
   \<and> (\<forall>s res. \<not> rebuildAvailable s \<longrightarrow> clickRebuild res s = s)
   \<and> (\<forall>s fileName newCode.
         botRunnerShown s \<and> fileName \<in> set (map name (generatedFiles s)) \<longrightarrow>
         rebuildAvailable (saveFile fileName newCode s))
   \<and> \<not> hasUnrebuiltChanges initialApp
   \<and> (\<forall>s fileName newCode. hasUnrebuiltChanges (handleFileUpdate fileName newCode s))
   \<and> (\<forall>s. \<not> hasUnrebuiltChanges (appCallback CB_onComplete s))
   \<and> (\<forall>s. \<not> hasUnrebuiltChanges (resetBuild s))
   \<and> (\<forall>s r. \<not> hasUnrebuiltChanges (snd (handleReset r (Inr ()) s)))
   \<and> (\<forall>s c. hasUnrebuiltChanges (handleStartConfiguration c s)
               = (if prompt s = [] \<or> token s = [] then hasUnrebuiltChanges s else False))
   \<and> (\<forall>s c us. hasUnrebuiltChanges (startCodeGeneration c us s) = hasUnrebuiltChanges s)
   \<and> (\<forall>s l. hasUnrebuiltChanges (appCallback (CB_onProgress l) s) = hasUnrebuiltChanges s)
   \<and> (\<forall>s e. hasUnrebuiltChanges (appCallback (CB_onError e) s) = hasUnrebuiltChanges s)
   \<and> (\<forall>s d. hasUnrebuiltChanges (runDebugStep_cont d s) = hasUnrebuiltChanges s)
   \<and> (\<forall>s fs. hasUnrebuiltChanges (runBuildStep fs s) = hasUnrebuiltChanges s)
   \<and> (\<forall>s r res. hasUnrebuiltChanges (snd (handleRebuild r res s)) = hasUnrebuiltChanges s)
   \<and> (\<forall>s r. hasUnrebuiltChanges (onClearLogs r s) = hasUnrebuiltChanges s)
   \<and> (\<forall>s rs x. hasUnrebuiltChanges (startBot rs x s) = hasUnrebuiltChanges s)
   \<and> (\<forall>s rs res. hasUnrebuiltChanges (snd (stopBot rs res s)) = hasUnrebuiltChanges s)
   \<and> (\<forall>s stop n. hasUnrebuiltChanges (ticks stop n s) = hasUnrebuiltChanges s)
   \<and> (\<forall>s i l. hasUnrebuiltChanges (stream_onLog i l s) = hasUnrebuiltChanges s)
   \<and> (\<forall>s i res. hasUnrebuiltChanges (stream_onError i res s) = hasUnrebuiltChanges s)"
proof -
  have x1: "\<forall>s. rebuildAvailable s = (botRunnerShown s \<and> hasUnrebuiltChanges s)"
    by (simp add: rebuildAvailable_def rebuildDisabled_def)
  have x2: "\<forall>s res. rebuildAvailable s \<and> (runtimeState s = STOPPED \<or> res = Inr ()) \<longrightarrow>
         buildState (clickRebuild res s) = BUILDING"
    proof (intro allI impI)
    fix s :: App and res :: "string + unit"
    assume v: "rebuildAvailable s \<and> (runtimeState s = STOPPED \<or> res = Inr ())"
    then have "r_runtimeState (render s) = STOPPED \<or> res = Inr ()"
      by (simp add: render_def)
    from handleRebuild_state [OF this] v show "buildState (clickRebuild res s) = BUILDING"
      by (simp add: clickRebuild_def)
  qed
  have x3: "\<forall>s res. \<not> rebuildAvailable s \<longrightarrow> clickRebuild res s = s"
    by (simp add: clickRebuild_def)
  have x4: "\<forall>s fileName newCode.
         botRunnerShown s \<and> fileName \<in> set (map name (generatedFiles s)) \<longrightarrow>
         rebuildAvailable (saveFile fileName newCode s)"
    by (simp add: saveFile_def rebuildAvailable_def rebuildDisabled_def botRunnerShown_def
        handleFileUpdate_fields)
  have x5: "\<not> hasUnrebuiltChanges initialApp"
    by (simp add: initialApp_def)
  have x6: "\<forall>s fileName newCode. hasUnrebuiltChanges (handleFileUpdate fileName newCode s)"
    by (simp add: handleFileUpdate_fields)
  have x7: "\<forall>s. \<not> hasUnrebuiltChanges (appCallback CB_onComplete s)"
    by (simp add: appCallback_simps)
  have x8: "\<forall>s. \<not> hasUnrebuiltChanges (resetBuild s)"
    by (simp add: resetBuild_def)
  have x9: "\<forall>s r. \<not> hasUnrebuiltChanges (snd (handleReset r (Inr ()) s))"
    by (simp add: handleReset_def stopBot_def resetRuntime_def resetBuild_def)
  have x10: "\<forall>s c. hasUnrebuiltChanges (handleStartConfiguration c s)
               = (if prompt s = [] \<or> token s = [] then hasUnrebuiltChanges s else False)"
    by (simp only: flag_handleStartConfiguration) simp
  have x11: "\<forall>s c us. hasUnrebuiltChanges (startCodeGeneration c us s) = hasUnrebuiltChanges s"
    by (simp add: flag_startCodeGeneration)
  have x12: "\<forall>s l. hasUnrebuiltChanges (appCallback (CB_onProgress l) s) = hasUnrebuiltChanges s"
    by (simp add: appCallback_simps addLog_def)
  have x13: "\<forall>s e. hasUnrebuiltChanges (appCallback (CB_onError e) s) = hasUnrebuiltChanges s"
    by (simp add: appCallback_simps flag_handleBuildError)
  have x14: "\<forall>s d. hasUnrebuiltChanges (runDebugStep_cont d s) = hasUnrebuiltChanges s"
    by (simp add: flag_runDebugStep_cont)
  have x15: "\<forall>s fs. hasUnrebuiltChanges (runBuildStep fs s) = hasUnrebuiltChanges s"
    by (simp add: flag_runBuildStep)
  have x16: "\<forall>s r res. hasUnrebuiltChanges (snd (handleRebuild r res s)) = hasUnrebuiltChanges s"
    by (simp add: flag_handleRebuild)
  have x17: "\<forall>s r. hasUnrebuiltChanges (onClearLogs r s) = hasUnrebuiltChanges s"
    by (simp add: onClearLogs_def split: option.splits)
  have x18: "\<forall>s rs x. hasUnrebuiltChanges (startBot rs x s) = hasUnrebuiltChanges s"
    by (simp add: flag_startBot)
  have x19: "\<forall>s rs res. hasUnrebuiltChanges (snd (stopBot rs res s)) = hasUnrebuiltChanges s"
    by (simp add: flag_stopBot)
  have x20: "\<forall>s stop n. hasUnrebuiltChanges (ticks stop n s) = hasUnrebuiltChanges s"
    by (simp add: flag_ticks)
  have x21: "\<forall>s i l. hasUnrebuiltChanges (stream_onLog i l s) = hasUnrebuiltChanges s"
    by (simp add: flag_stream)
  have x22: "\<forall>s i res. hasUnrebuiltChanges (stream_onError i res s) = hasUnrebuiltChanges s"
    by (simp add: flag_stream)
  show ?thesis
    by (intro conjI)
       (rule x1,
        rule x2,
        rule x3,
        rule x4,
        rule x5,
        rule x6,
        rule x7,
        rule x8,
        rule x9,
        rule x10,
        rule x11,
        rule x12,
        rule x13,
        rule x14,
        rule x15,
        rule x16,
        rule x17,
        rule x18,
        rule x19,
        rule x20,
        rule x21,
        rule x22)
qed

text \<open>The theorem at \<open>editableSession\<close>, before and after an edit of \<open>main.py\<close>; the bot is
  stopped there.\<close>

theorem rebuild_guard_witness:
  "\<not> rebuildAvailable editableSession
   \<and> clickRebuild (Inr ()) editableSession = editableSession
   \<and> botRunnerShown editableSession
   \<and> ''main.py'' \<in> set (map name (generatedFiles editableSession))
   \<and> rebuildAvailable (saveFile ''main.py'' ''print(2)'' editableSession)
   \<and> runtimeState (saveFile ''main.py'' ''print(2)'' editableSession) = STOPPED
   \<and> buildState (clickRebuild (Inr ()) (saveFile ''main.py'' ''print(2)'' editableSession)) = BUILDING"
proof -
  note t = rebuild_guard
  have h1: "\<not> rebuildAvailable editableSession"
    by (simp add: rebuildAvailable_def rebuildDisabled_def editableSession_def initialApp_def)
  have h2: "botRunnerShown editableSession
            \<and> ''main.py'' \<in> set (map name (generatedFiles editableSession))"
    by (simp add: botRunnerShown_def editableSession_def)
  have h3: "runtimeState (saveFile ''main.py'' ''print(2)'' editableSession) = STOPPED"
    by (simp add: saveFile_def handleFileUpdate_def addLog_def editableSession_def initialApp_def)
  note t2 = t [THEN conjunct2, THEN conjunct1]
  note t3 = t [THEN conjunct2, THEN conjunct2, THEN conjunct1]
  note t4 = t [THEN conjunct2, THEN conjunct2, THEN conjunct2, THEN conjunct1]
  from t3 h1 have c1: "clickRebuild (Inr ()) editableSession = editableSession" by blast
  from t4 h2 have c2: "rebuildAvailable (saveFile ''main.py'' ''print(2)'' editableSession)"
    by blast
  from t2 c2 h3
  have c3: "buildState (clickRebuild (Inr ()) (saveFile ''main.py'' ''print(2)'' editableSession))
              = BUILDING"
    by blast
  from h1 c1 h2 c2 h3 c3 show ?thesis by blast
qed

subsection \<open>Clearing and truncating the build log\<close>

lemma findIndex_takeWhile:
  "findIndex p xs = Some i \<Longrightarrow> take i xs = takeWhile (\<lambda>x. \<not> p x) xs"
proof (induction xs arbitrary: i)
  case Nil
  then show ?case by simp
next
  case (Cons x xs)
  then show ?case by (cases "p x") auto
qed

lemma findIndex_append_first:
  assumes "\<forall>x \<in> set gen. \<not> p x" and "build \<noteq> []" and "p (hd build)"
  shows "findIndex p (gen @ build) = Some (length gen)"
  using assms
proof (induction gen)
  case Nil
  then show ?case by (cases build) auto
next
  case (Cons g gen)
  then show ?case by simp
qed

lemma runBuildStep_logs: "logs (runBuildStep fs s) = logs s @ [connectingEntry]"
  by (simp add: runBuildStep_def buildBot_def Let_def connectingEntry_def)

lemma onClearLogs_logs:
  assumes "r_buildState r = ERROR"
  shows "logs (onClearLogs r s)
           = (if \<exists>l \<in> set (r_logs r). mentionsBuildServer l
              then takeWhile (\<lambda>l. \<not> mentionsBuildServer l) (r_logs r) else [])"
proof (cases "firstBuildLogIndex (r_logs r)")
  case None
  then have "\<forall>l \<in> set (r_logs r). \<not> mentionsBuildServer l"
    by (simp add: firstBuildLogIndex_def findIndex_None)
  with None assms show ?thesis by (simp add: onClearLogs_def)
next
  case (Some i)
  then have f: "findIndex mentionsBuildServer (r_logs r) = Some i"
    by (simp add: firstBuildLogIndex_def)
  from findIndex_Some [OF f] have "\<exists>l \<in> set (r_logs r). mentionsBuildServer l"
    by (metis nth_mem)
  with Some assms findIndex_takeWhile [OF f] show ?thesis by (simp add: onClearLogs_def)
qed

lemma stopBot_parts_logs:
  "logs (stopBot_sync s) = logs s" "logs (stopBot_cont s) = logs s"
  "logs (resetRuntime s) = logs s"
  by (simp_all add: stopBot_sync_def stopBot_cont_def resetRuntime_def Let_def addRuntimeLog_def
      closeRuntimeLogStream_def clearCountdownInterval_def split: option.splits)

lemma handleRebuild_logs:
  assumes "r_runtimeState r = STOPPED \<or> res = Inr ()"
  shows "logs (snd (handleRebuild r res s))
     = (case firstBuildLogIndex (r_logs r) of
          Some i \<Rightarrow> take i (logs s @ [\<lparr>message = ''Rebuilding bot with your changes...'', type = Log\<rparr>])
        | None \<Rightarrow> logs s @ [\<lparr>message = ''Rebuilding bot with your changes...'', type = Log\<rparr>])
       @ [connectingEntry]"
  by (simp add: handleRebuild_returns [OF assms] handleRebuild_cont_def handleRebuild_sync_def
      Let_def runBuildStep_logs stopBot_parts_logs split: option.splits)

lemma findIndex_append_left:
  "findIndex p xs = Some i \<Longrightarrow> findIndex p (xs @ ys) = Some i"
  by (induction xs arbitrary: i) (auto split: if_splits)

lemma sentinelNamed_fails:
  "\<forall>n fs tok. \<exists>e. reportedOutcome (buildEvents sentinelNamed n fs) fs tok = [CB_onError e]"
  by (simp add: sentinelNamed_def echoBot_def buildFailsScript_outcome)

lemma sentinelNamed_repairs:
  "\<forall>n p fs e l. \<exists>d fixed.
      debugCode sentinelNamed n p fs e l = Inr d \<and> fixed_files d = Some fixed \<and> fixed \<noteq> []"
  by (simp add: sentinelNamed_def echoBot_def)

text \<open>
  \<^bold>\<open>C4\<close>, as stated, fails.  First: when the generation of the setup files throws, the
  session is in \<open>ERROR\<close> with ten generation entries and the error, no build has been
  attempted, and Clear leaves the log empty.  Second: when the plan names a file
  \<open>Connecting to build server.py\<close>, the log at the first entry into \<open>BUILDING\<close> has eleven
  generation entries, of which the ninth contains the sentinel text, and the first build
  entry; after the failed builds Clear keeps eight entries and erases three generation
  entries that precede the first build entry.
\<close>

theorem log_truncation_counterexample:
  "buildState setupFailedSession = ERROR
   \<and> sockets setupFailedSession = []
   \<and> map message (logs setupFailedSession)
       = [''Starting build process...'', ''Validating Telegram token...'',
          ''Token validated successfully.'',
          ''Analyzing prompt for additional configuration...'',
          ''No additional configuration required. Starting code generation...'',
          ''Analyzing requirements and planning bot structure...'',
          ''Bot structure planned successfully.'', ''Found 1 files to generate.'',
          ''- Generating code for main.py'', ''Generating setup files...'',
          ''Failed during code generation: no setup'']
   \<and> logs (clickClear setupFailedSession) = []
   \<and> buildState sentinelBuildingSession = BUILDING
   \<and> map message (logs sentinelBuildingSession)
       = [''Starting build process...'', ''Validating Telegram token...'',
          ''Token validated successfully.'',
          ''Analyzing prompt for additional configuration...'',
          ''No additional configuration required. Starting code generation...'',
          ''Analyzing requirements and planning bot structure...'',
          ''Bot structure planned successfully.'', ''Found 1 files to generate.'',
          ''- Generating code for Connecting to build server.py'',
          ''Generating setup files...'', ''All files generated.'',
          ''Connecting to build server...'']
   \<and> buildState sentinelFailedSession = ERROR
   \<and> map message (logs (clickClear sentinelFailedSession))
       = [''Starting build process...'', ''Validating Telegram token...'',
          ''Token validated successfully.'',
          ''Analyzing prompt for additional configuration...'',
          ''No additional configuration required. Starting code generation...'',
          ''Analyzing requirements and planning bot structure...'',
          ''Bot structure planned successfully.'', ''Found 1 files to generate.'']"
proof -
  have a: "buildState setupFailedSession = ERROR
   \<and> sockets setupFailedSession = []
   \<and> map message (logs setupFailedSession)
       = [''Starting build process...'', ''Validating Telegram token...'',
          ''Token validated successfully.'',
          ''Analyzing prompt for additional configuration...'',
          ''No additional configuration required. Starting code generation...'',
          ''Analyzing requirements and planning bot structure...'',
          ''Bot structure planned successfully.'', ''Found 1 files to generate.'',
          ''- Generating code for main.py'', ''Generating setup files...'',
          ''Failed during code generation: no setup'']
   \<and> logs (clickClear setupFailedSession) = []"
    by code_simp
  have b: "buildState sentinelBuildingSession = BUILDING
   \<and> map message (logs sentinelBuildingSession)
       = [''Starting build process...'', ''Validating Telegram token...'',
          ''Token validated successfully.'',
          ''Analyzing prompt for additional configuration...'',
          ''No additional configuration required. Starting code generation...'',
          ''Analyzing requirements and planning bot structure...'',
          ''Bot structure planned successfully.'', ''Found 1 files to generate.'',
          ''- Generating code for Connecting to build server.py'',
          ''Generating setup files...'', ''All files generated.'',
          ''Connecting to build server...'']"
    by code_simp
  have w: "awaitingBuild sentinelBuildingSession" "buildLoopAttempt sentinelBuildingSession = 0"
    by code_simp+
  have i: "firstBuildLogIndex (logs sentinelBuildingSession) = Some 8"
    by code_simp
  have t: "map message (take 8 (logs sentinelBuildingSession))
       = [''Starting build process...'', ''Validating Telegram token...'',
          ''Token validated successfully.'',
          ''Analyzing prompt for additional configuration...'',
          ''No additional configuration required. Starting code generation...'',
          ''Analyzing requirements and planning bot structure...'',
          ''Bot structure planned successfully.'', ''Found 1 files to generate.'']"
    by code_simp
  have l: "8 \<le> length (logs sentinelBuildingSession)"
    using findIndex_Some [OF i [unfolded firstBuildLogIndex_def]] by simp
  from failing_loop [OF sentinelNamed_fails sentinelNamed_repairs w]
  have st: "buildState sentinelFailedSession = ERROR"
    unfolding sentinelFailedSession_def by blast
  have "follows sentinelBuildingSession sentinelFailedSession"
    unfolding sentinelFailedSession_def by (rule follows_buildLoop)
  then obtain rest where
    r: "logs sentinelFailedSession = logs sentinelBuildingSession @ rest"
    by (auto simp: follows_def)
  have i': "firstBuildLogIndex (logs sentinelFailedSession) = Some 8"
    using i by (simp add: r firstBuildLogIndex_def findIndex_append_left)
  have "logs (clickClear sentinelFailedSession) = take 8 (logs sentinelFailedSession)"
    using st i' by (simp add: clickClear_def botRunnerShown_def onClearLogs_def render_def)
  also have "\<dots> = take 8 (logs sentinelBuildingSession)"
    using l by (simp add: r)
  finally have c: "map message (logs (clickClear sentinelFailedSession))
       = [''Starting build process...'', ''Validating Telegram token...'',
          ''Token validated successfully.'',
          ''Analyzing prompt for additional configuration...'',
          ''No additional configuration required. Starting code generation...'',
          ''Analyzing requirements and planning bot structure...'',
          ''Bot structure planned successfully.'', ''Found 1 files to generate.'']"
    by (simp only: t)
  from a b st c show ?thesis by (intro conjI) (simp_all only:)
qed

text \<open>
  \<^bold>\<open>C4\<close>, amended.  The boundary is found by scanning the messages for the text
  \<open>Connecting to build server\<close>; the session records no index.  Clear in \<open>ERROR\<close> keeps the
  entries before the first entry with that text and empties the log when there is none.
  Rebuild, when the request to stop a running bot returns, appends its own entry, keeps the
  entries before the index of the first entry with that text in the rendered log (all
  entries when there is none) and then starts the build, whose first entry is
  \<open>connectingEntry\<close>.  Every build attempt starts with that entry.  So when the log is the
  generation entries, none of which contains the text, followed by build entries of which the
  first contains it, Clear in \<open>ERROR\<close> leaves exactly the generation entries and Rebuild
  leaves them followed by the first entry of the new build.  The log that Clear leaves has no
  entry with the text any more: a second Clear empties it, generation entries included, and a
  Rebuild on such a log keeps all its entries and the entry of Rebuild itself.
\<close>

theorem log_truncation_by_sentinel:
  "(\<forall>r s. r_buildState r = ERROR \<longrightarrow>
        logs (onClearLogs r s)
          = (if \<exists>l \<in> set (r_logs r). mentionsBuildServer l
             then takeWhile (\<lambda>l. \<not> mentionsBuildServer l) (r_logs r) else []))
   \<and> (\<forall>r res s. r_runtimeState r = STOPPED \<or> res = Inr () \<longrightarrow>
        logs (snd (handleRebuild r res s))
          = (case firstBuildLogIndex (r_logs r) of
               Some i \<Rightarrow> take i (logs s @ [\<lparr>message = ''Rebuilding bot with your changes...'', type = Log\<rparr>])
             | None \<Rightarrow> logs s @ [\<lparr>message = ''Rebuilding bot with your changes...'', type = Log\<rparr>])
            @ [connectingEntry])
   \<and> (\<forall>fs s. logs (runBuildStep fs s) = logs s @ [connectingEntry])
   \<and> mentionsBuildServer connectingEntry
   \<and> (\<forall>s gen build.
         buildState s = ERROR \<and> logs s = gen @ build \<and> (\<forall>l \<in> set gen. \<not> mentionsBuildServer l)
         \<and> build \<noteq> [] \<and> mentionsBuildServer (hd build) \<longrightarrow>
         logs (clickClear s) = gen \<and> logs (clickClear (clickClear s)) = [])
   \<and> (\<forall>s res gen build.
         rebuildAvailable s \<and> (runtimeState s = STOPPED \<or> res = Inr ())
         \<and> logs s = gen @ build \<and> (\<forall>l \<in> set gen. \<not> mentionsBuildServer l)
         \<and> build \<noteq> [] \<and> mentionsBuildServer (hd build) \<longrightarrow>
         logs (clickRebuild res s) = gen @ [connectingEntry])
   \<and> (\<forall>s res.
         rebuildAvailable s \<and> (runtimeState s = STOPPED \<or> res = Inr ())
         \<and> (\<forall>l \<in> set (logs s). \<not> mentionsBuildServer l) \<longrightarrow>
         logs (clickRebuild res s)
           = logs s @ [\<lparr>message = ''Rebuilding bot with your changes...'', type = Log\<rparr>,
                       connectingEntry])"
proof (intro conjI allI impI)
  fix r :: Render and s :: App
  assume "r_buildState r = ERROR"
  then show "logs (onClearLogs r s)
          = (if \<exists>l \<in> set (r_logs r). mentionsBuildServer l
             then takeWhile (\<lambda>l. \<not> mentionsBuildServer l) (r_logs r) else [])"
    by (rule onClearLogs_logs)
next
  fix r :: Render and res :: "string + unit" and s :: App
  assume "r_runtimeState r = STOPPED \<or> res = Inr ()"
  then show "logs (snd (handleRebuild r res s))
          = (case firstBuildLogIndex (r_logs r) of
               Some i \<Rightarrow> take i (logs s @ [\<lparr>message = ''Rebuilding bot with your changes...'', type = Log\<rparr>])
             | None \<Rightarrow> logs s @ [\<lparr>message = ''Rebuilding bot with your changes...'', type = Log\<rparr>])
            @ [connectingEntry]"
    by (rule handleRebuild_logs)
next
  fix fs and s :: App
  show "logs (runBuildStep fs s) = logs s @ [connectingEntry]"
    by (rule runBuildStep_logs)
next
  show "mentionsBuildServer connectingEntry"
    by (simp add: mentionsBuildServer_def connectingEntry_def)
next
  fix s :: App and gen build
  assume a: "buildState s = ERROR \<and> logs s = gen @ build
         \<and> (\<forall>l \<in> set gen. \<not> mentionsBuildServer l)
         \<and> build \<noteq> [] \<and> mentionsBuildServer (hd build)"
  then have i: "firstBuildLogIndex (logs s) = Some (length gen)"
    by (simp add: firstBuildLogIndex_def findIndex_append_first)
  from a i have k: "clickClear s = s\<lparr>logs := gen\<rparr>"
    by (simp add: clickClear_def botRunnerShown_def onClearLogs_def render_def)
  then show "logs (clickClear s) = gen" by simp
  from a have n: "firstBuildLogIndex gen = None"
    by (simp add: firstBuildLogIndex_def findIndex_None)
  from a show "logs (clickClear (clickClear s)) = []"
    unfolding k by (simp add: clickClear_def botRunnerShown_def onClearLogs_def render_def n)
next
  fix s :: App and res :: "string + unit" and gen build
  assume a: "rebuildAvailable s \<and> (runtimeState s = STOPPED \<or> res = Inr ())
         \<and> logs s = gen @ build
         \<and> (\<forall>l \<in> set gen. \<not> mentionsBuildServer l)
         \<and> build \<noteq> [] \<and> mentionsBuildServer (hd build)"
  then have i: "firstBuildLogIndex (r_logs (render s)) = Some (length gen)"
    by (simp add: firstBuildLogIndex_def findIndex_append_first render_def)
  from a have o: "r_runtimeState (render s) = STOPPED \<or> res = Inr ()"
    by (simp add: render_def)
  from a have "clickRebuild res s = snd (handleRebuild (render s) res s)"
    by (simp add: clickRebuild_def)
  with a i show "logs (clickRebuild res s) = gen @ [connectingEntry]"
    by (simp add: handleRebuild_logs [OF o])
next
  fix s :: App and res :: "string + unit"
  assume a: "rebuildAvailable s \<and> (runtimeState s = STOPPED \<or> res = Inr ())
         \<and> (\<forall>l \<in> set (logs s). \<not> mentionsBuildServer l)"
  then have i: "firstBuildLogIndex (r_logs (render s)) = None"
    by (simp add: firstBuildLogIndex_def findIndex_None render_def)
  from a have o: "r_runtimeState (render s) = STOPPED \<or> res = Inr ()"
    by (simp add: render_def)
  from a have "clickRebuild res s = snd (handleRebuild (render s) res s)"
    by (simp add: clickRebuild_def)
  with i show "logs (clickRebuild res s)
           = logs s @ [\<lparr>message = ''Rebuilding bot with your changes...'', type = Log\<rparr>,
                       connectingEntry]"
    by (simp add: handleRebuild_logs [OF o])
qed

text \<open>The theorem at \<open>smallErrorSession\<close>, where the bot is stopped, and at that session after
  a Clear.\<close>

theorem log_truncation_by_sentinel_witness:
  "r_buildState (render smallErrorSession) = ERROR
   \<and> buildState smallErrorSession = ERROR
   \<and> rebuildAvailable smallErrorSession
   \<and> runtimeState smallErrorSession = STOPPED
   \<and> logs smallErrorSession
       = [\<lparr>message = ''All files generated.'', type = Log\<rparr>]
         @ [\<lparr>message = ''Connecting to build server...'', type = Log\<rparr>,
            \<lparr>message = ''Build failed (Attempt 1).'', type = Error\<rparr>]
   \<and> \<not> mentionsBuildServer \<lparr>message = ''All files generated.'', type = Log\<rparr>
   \<and> mentionsBuildServer (hd [\<lparr>message = ''Connecting to build server...'', type = Log\<rparr>,
                                \<lparr>message = ''Build failed (Attempt 1).'', type = Error\<rparr>])
   \<and> logs (onClearLogs (render smallErrorSession) smallErrorSession)
       = [\<lparr>message = ''All files generated.'', type = Log\<rparr>]
   \<and> logs (snd (handleRebuild (render smallErrorSession) (Inr ()) smallErrorSession))
       = [\<lparr>message = ''All files generated.'', type = Log\<rparr>, connectingEntry]
   \<and> logs (clickClear smallErrorSession) = [\<lparr>message = ''All files generated.'', type = Log\<rparr>]
   \<and> logs (clickClear (clickClear smallErrorSession)) = []
   \<and> logs (clickRebuild (Inr ()) smallErrorSession)
       = [\<lparr>message = ''All files generated.'', type = Log\<rparr>, connectingEntry]
   \<and> rebuildAvailable (clickClear smallErrorSession)
   \<and> runtimeState (clickClear smallErrorSession) = STOPPED
   \<and> logs (clickRebuild (Inr ()) (clickClear smallErrorSession))
       = [\<lparr>message = ''All files generated.'', type = Log\<rparr>,
          \<lparr>message = ''Rebuilding bot with your changes...'', type = Log\<rparr>, connectingEntry]"
proof -
  let ?gen = "[\<lparr>message = ''All files generated.'', type = Log\<rparr>]"
  let ?build = "[\<lparr>message = ''Connecting to build server...'', type = Log\<rparr>,
                 \<lparr>message = ''Build failed (Attempt 1).'', type = Error\<rparr>]"
  note t = log_truncation_by_sentinel
  have h1: "r_buildState (render smallErrorSession) = ERROR"
    by (simp add: render_def smallErrorSession_def)
  have h2: "buildState smallErrorSession = ERROR"
    by (simp add: smallErrorSession_def)
  have h3: "rebuildAvailable smallErrorSession"
    by (simp add: rebuildAvailable_def rebuildDisabled_def botRunnerShown_def smallErrorSession_def)
  have h4: "logs smallErrorSession = ?gen @ ?build"
    by (simp add: smallErrorSession_def)
  have h5: "\<forall>l \<in> set ?gen. \<not> mentionsBuildServer l"
    by (simp add: mentionsBuildServer_def)
  have h6: "?build \<noteq> []" by simp
  have h7: "mentionsBuildServer (hd ?build)"
    by (simp add: mentionsBuildServer_def)
  have h8: "runtimeState smallErrorSession = STOPPED"
    by (simp add: smallErrorSession_def initialApp_def)
  then have h8': "r_runtimeState (render smallErrorSession) = STOPPED"
    by (simp add: render_def)
  have m: "(\<exists>l \<in> set (r_logs (render smallErrorSession)). mentionsBuildServer l)"
    by (simp add: render_def smallErrorSession_def mentionsBuildServer_def)
  have tw: "takeWhile (\<lambda>l. \<not> mentionsBuildServer l) (r_logs (render smallErrorSession)) = ?gen"
    by (simp add: render_def smallErrorSession_def mentionsBuildServer_def)
  have fi: "firstBuildLogIndex (r_logs (render smallErrorSession)) = Some 1"
    by (simp add: firstBuildLogIndex_def render_def smallErrorSession_def mentionsBuildServer_def)
  from t h1 have "logs (onClearLogs (render smallErrorSession) smallErrorSession)
          = (if \<exists>l \<in> set (r_logs (render smallErrorSession)). mentionsBuildServer l
             then takeWhile (\<lambda>l. \<not> mentionsBuildServer l) (r_logs (render smallErrorSession))
             else [])"
    by blast
  with m tw have c1: "logs (onClearLogs (render smallErrorSession) smallErrorSession) = ?gen"
    by simp
  from t h8' have "logs (snd (handleRebuild (render smallErrorSession) (Inr ()) smallErrorSession))
          = (case firstBuildLogIndex (r_logs (render smallErrorSession)) of
               Some i \<Rightarrow> take i (logs smallErrorSession
                                 @ [\<lparr>message = ''Rebuilding bot with your changes...'', type = Log\<rparr>])
             | None \<Rightarrow> logs smallErrorSession
                        @ [\<lparr>message = ''Rebuilding bot with your changes...'', type = Log\<rparr>])
            @ [connectingEntry]"
    by blast
  then have c0: "logs (snd (handleRebuild (render smallErrorSession) (Inr ()) smallErrorSession))
          = ?gen @ [connectingEntry]"
    by (simp add: fi h4)
  from t h2 h4 h5 h6 h7 have c2: "logs (clickClear smallErrorSession) = ?gen
      \<and> logs (clickClear (clickClear smallErrorSession)) = []"
    by blast
  from t h3 h8 h4 h5 h6 h7
  have c3: "logs (clickRebuild (Inr ()) smallErrorSession) = ?gen @ [connectingEntry]"
    by blast
  have k: "clickClear smallErrorSession = smallErrorSession\<lparr>logs := ?gen\<rparr>"
    by (simp add: clickClear_def botRunnerShown_def onClearLogs_def render_def
        firstBuildLogIndex_def smallErrorSession_def mentionsBuildServer_def)
  have g3: "rebuildAvailable (clickClear smallErrorSession)"
    unfolding k
    by (simp add: rebuildAvailable_def rebuildDisabled_def botRunnerShown_def smallErrorSession_def)
  have g8: "runtimeState (clickClear smallErrorSession) = STOPPED"
    unfolding k by (simp add: h8)
  have g5: "\<forall>l \<in> set (logs (clickClear smallErrorSession)). \<not> mentionsBuildServer l"
    unfolding k by (simp add: mentionsBuildServer_def)
  from t g3 g8 g5
  have c4: "logs (clickRebuild (Inr ()) (clickClear smallErrorSession))
       = logs (clickClear smallErrorSession)
         @ [\<lparr>message = ''Rebuilding bot with your changes...'', type = Log\<rparr>, connectingEntry]"
    by blast
  from c2 have l: "logs (clickClear smallErrorSession) = ?gen" by blast
  from h1 h2 h3 h8 h4 h5 h7 c0 c1 c2 c3 g3 g8 c4 show ?thesis by (simp add: l)
qed

subsection \<open>The countdown\<close>



lemma fire_stale:
  assumes "staleTimers s"
  shows "\<exists>c. fire stop i s = s\<lparr>countdown := c\<rparr>"
proof (cases "i < length (intervals s) \<and> \<not> cleared (intervals s ! i)")
  case True
  with assms have "iv_runtimeState (intervals s ! i) = STOPPED"
    by (simp add: staleTimers_def list_all_length)
  with True have "fire stop i s = s\<lparr>countdown := (if countdown s \<le> 1 then 0 else countdown s - 1)\<rparr>"
    by (simp add: fire_def countdownCallback_def stopBot_def)
  then show ?thesis by blast
next
  case False
  then have "fire stop i s = s" by (auto simp: fire_def)
  moreover have "s = s\<lparr>countdown := countdown s\<rparr>" by simp
  ultimately show ?thesis by metis
qed

lemma fold_fire_stale:
  assumes "staleTimers s"
  shows "\<exists>c. fold (fire stop) is s = s\<lparr>countdown := c\<rparr>"
  using assms
proof (induction "is" arbitrary: s)
  case Nil
  have "s = s\<lparr>countdown := countdown s\<rparr>" by simp
  then show ?case by (metis fold_simps(1))
next
  case (Cons i "is")
  from fire_stale [OF Cons.prems] obtain c where c: "fire stop i s = s\<lparr>countdown := c\<rparr>" by blast
  have "staleTimers (s\<lparr>countdown := c\<rparr>)" using Cons.prems by (simp add: staleTimers_def)
  from Cons.IH [OF this] obtain c' where "fold (fire stop) is (s\<lparr>countdown := c\<rparr>) = s\<lparr>countdown := c'\<rparr>"
    by auto
  with c show ?case by auto
qed

lemma tick_stale:
  assumes "staleTimers s"
  shows "\<exists>c. tick stop s = s\<lparr>countdown := c\<rparr>"
  unfolding tick_def by (rule fold_fire_stale [OF assms])

lemma ticks_stale:
  assumes "staleTimers s"
  shows "\<exists>c. ticks stop n s = s\<lparr>countdown := c\<rparr>"
  using assms
proof (induction n arbitrary: s)
  case 0
  have "s = s\<lparr>countdown := countdown s\<rparr>" by simp
  then show ?case by (metis ticks.simps(1))
next
  case (Suc n)
  from tick_stale [OF Suc.prems] obtain c where c: "tick stop s = s\<lparr>countdown := c\<rparr>" by blast
  have "staleTimers (s\<lparr>countdown := c\<rparr>)" using Suc.prems by (simp add: staleTimers_def)
  from Suc.IH [OF this] obtain c' where "ticks stop n (s\<lparr>countdown := c\<rparr>) = s\<lparr>countdown := c'\<rparr>"
    by auto
  with c show ?case by auto
qed

lemma ticks_stale_fields:
  assumes "staleTimers s"
  shows "runtimeState (ticks stop n s) = runtimeState s"
    and "calls (ticks stop n s) = calls s"
    and "intervals (ticks stop n s) = intervals s"
    and "buildState (ticks stop n s) = buildState s"
proof -
  from ticks_stale [OF assms] obtain c where "ticks stop n s = s\<lparr>countdown := c\<rparr>" by blast
  then show "runtimeState (ticks stop n s) = runtimeState s"
    and "calls (ticks stop n s) = calls s"
    and "intervals (ticks stop n s) = intervals s"
    and "buildState (ticks stop n s) = buildState s"
    by simp_all
qed

lemma tick_one_timer:
  assumes "intervals s = [\<lparr>cleared = False, iv_runtimeState = STOPPED\<rparr>]"
  shows "tick stop s = s\<lparr>countdown := (if countdown s \<le> 1 then 0 else countdown s - 1)\<rparr>"
  using assms by (simp add: tick_def fire_def countdownCallback_def stopBot_def)

lemma ticks_one_timer_countdown:
  assumes "intervals s = [\<lparr>cleared = False, iv_runtimeState = STOPPED\<rparr>]" "0 \<le> countdown s"
  shows "countdown (ticks stop n s) = (if countdown s \<le> int n then 0 else countdown s - int n)"
  using assms
proof (induction n arbitrary: s)
  case 0
  then show ?case by simp
next
  case (Suc n)
  let ?t = "s\<lparr>countdown := (if countdown s \<le> 1 then 0 else countdown s - 1)\<rparr>"
  have t: "tick stop s = ?t" by (rule tick_one_timer [OF Suc.prems(1)])
  have "intervals ?t = [\<lparr>cleared = False, iv_runtimeState = STOPPED\<rparr>]" "0 \<le> countdown ?t"
    using Suc.prems by simp_all
  from Suc.IH [OF this] show ?case
    using Suc.prems(2) by (simp add: t)
qed



text \<open>
  \<^bold>\<open>C8\<close>: the code does not do what the claim says.  \<open>startBot\<close> sets the countdown to 600
  and arms the timer, but the timer calls the \<open>stopBot\<close> of the render in which the bot was
  stopped, and that \<open>stopBot\<close> returns at its guard.  In \<open>runningSession\<close> (the start button,
  a successful build, the automatic start) the countdown is 1 after 599 seconds and 0 after
  600, the runtime state is \<open>RUNNING\<close> after any number of seconds, no stop request is ever
  made, the timer is never cleared, and the number of transitions from \<open>RUNNING\<close> to
  \<open>STOPPED\<close> in the first 600 seconds is 0, whatever a stop request would be answered.  The
  same holds for the start of any session that has no timer yet.
\<close>

theorem countdown_does_not_stop_bot:
  "buildState successSession = SUCCESS
   \<and> runtimeState successSession = STOPPED
   \<and> runningSession = startBot STOPPED (Inr ()) successSession
   \<and> runtimeState runningSession = RUNNING
   \<and> countdown runningSession = 600
   \<and> intervals runningSession = [\<lparr>cleared = False, iv_runtimeState = STOPPED\<rparr>]
   \<and> (\<forall>stop. countdown (ticks stop 599 runningSession) = 1)
   \<and> (\<forall>stop. countdown (ticks stop 600 runningSession) = 0)
   \<and> (\<forall>stop n. runtimeState (ticks stop n runningSession) = RUNNING)
   \<and> (\<forall>stop n. calls (ticks stop n runningSession) = calls runningSession)
   \<and> (\<forall>stop n. intervals (ticks stop n runningSession)
                   = [\<lparr>cleared = False, iv_runtimeState = STOPPED\<rparr>])
   \<and> (\<forall>stop. stopTransitions stop 600 runningSession = 0)
   \<and> (\<forall>stop s n.
         runtimeState (ticks stop n (startBot STOPPED (Inr ()) (s\<lparr>intervals := []\<rparr>))) = RUNNING)"
proof -
  note rf = startBot_fresh [OF successSession_facts(3), of "()", folded runningSession_eq]
  have st: "staleTimers runningSession"
    by (simp add: staleTimers_def rf)
  have r: "runtimeState (ticks stop n runningSession) = RUNNING" for stop n
    by (simp add: ticks_stale_fields [OF st] rf)
  have c: "countdown (ticks stop n runningSession) = (if 600 \<le> int n then 0 else 600 - int n)"
    for stop n
    using ticks_one_timer_countdown [of runningSession stop n] by (simp add: rf)
  have tr: "stopTransitions stop 600 runningSession = 0" for stop
    unfolding stopTransitions_def r by simp
  have g: "runtimeState (ticks stop n (startBot STOPPED (Inr ()) (s\<lparr>intervals := []\<rparr>))) = RUNNING"
    for stop s n
  proof -
    have i: "intervals (s\<lparr>intervals := []\<rparr>) = []" by simp
    note f = startBot_fresh [OF i, of "()"]
    have "staleTimers (startBot STOPPED (Inr ()) (s\<lparr>intervals := []\<rparr>))"
      by (simp add: staleTimers_def f)
    from ticks_stale_fields(1) [OF this] f(1) show ?thesis by simp
  qed
  show ?thesis
    using r tr c [of _ 599] c [of _ 600] g
    by (simp add: rf successSession_facts runningSession_eq [symmetric] ticks_stale_fields [OF st])
qed

subsection \<open>A connection that closes normally before the build has ended\<close>

lemma ws_dispatch_nonTerminal:
  assumes "nonTerminal ev" "\<not> completed ws" "\<not> closeEventFired ws"
  shows "filter isOutcome (snd (ws_dispatch ev ws)) = []
       \<and> \<not> completed (fst (ws_dispatch ev ws)) \<and> \<not> closeEventFired (fst (ws_dispatch ev ws))"
proof (cases ev)
  case (EV_message d)
  with assms show ?thesis
    by (cases d) (auto simp: nonTerminal_def ws_dispatch_def ws_onmessage_def split: option.splits)
qed (use assms in \<open>auto simp: nonTerminal_def ws_dispatch_def ws_onopen_def\<close>)

lemma ws_run_nonTerminal:
  assumes "list_all nonTerminal evs" "\<not> completed ws" "\<not> closeEventFired ws"
  shows "filter isOutcome (snd (ws_run evs ws)) = []
       \<and> \<not> completed (fst (ws_run evs ws)) \<and> \<not> closeEventFired (fst (ws_run evs ws))"
  using assms
proof (induction evs arbitrary: ws)
  case Nil
  then show ?case by simp
next
  case (Cons ev evs)
  from Cons.prems have n: "nonTerminal ev" and l: "list_all nonTerminal evs" by simp_all
  note d = ws_dispatch_nonTerminal [OF n Cons.prems(2,3)]
  from Cons.IH [OF l, of "fst (ws_dispatch ev ws)"] d show ?case
    by (simp add: split_beta)
qed

lemma ws_dispatch_close_1000:
  assumes "\<not> closeEventFired ws"
  shows "snd (ws_dispatch (EV_close 1000 reason) ws) = []"
    and "closedSocket (fst (ws_dispatch (EV_close 1000 reason) ws))"
    and "completed (fst (ws_dispatch (EV_close 1000 reason) ws)) = completed ws"
  using assms by (simp_all add: ws_dispatch_def ws_onclose_def cleanup_def closedSocket_def)

lemma ws_dispatch_closedSocket:
  assumes "closedSocket ws"
  shows "ws_dispatch ev ws = (ws, [])"
proof (cases ev)
  case (EV_message d)
  with assms show ?thesis by (simp add: ws_dispatch_def closedSocket_def)
qed (use assms in \<open>simp_all add: ws_dispatch_def closedSocket_def\<close>)

lemma ws_run_closedSocket:
  "closedSocket ws \<Longrightarrow> ws_run evs ws = (ws, [])"
  by (induction evs) (simp_all add: ws_dispatch_closedSocket)

lemma ws_run_append:
  "ws_run (xs @ ys) ws
     = (fst (ws_run ys (fst (ws_run xs ws))), snd (ws_run xs ws) @ snd (ws_run ys (fst (ws_run xs ws))))"
  by (induction xs arbitrary: ws) (simp_all add: split_beta)

lemma runBuildStep_socket:
  "sockets (runBuildStep fs s) = sockets s @ [newWebSocket fs (token s)]"
  "buildState (runBuildStep fs s) = BUILDING"
  "calls (runBuildStep fs s) = calls s @ [Call_buildBot fs (token s)]"
  by (simp_all add: runBuildStep_def buildBot_def Let_def addLog_def)


lemma pendingBuild_eq:
  fixes s :: App
  assumes "list_all nonTerminal pre"
  shows "sockets (pendingBuild fs pre s)
           = sockets s @ [fst (ws_run pre (newWebSocket fs (token s)))]"
    and "core (pendingBuild fs pre s)
           = core ((runBuildStep fs s)
                     \<lparr>sockets := sockets s @ [fst (ws_run pre (newWebSocket fs (token s)))]\<rparr>)"
proof -
  let ?R = "runBuildStep fs s"
  let ?i = "length (sockets s)"
  let ?new = "newWebSocket fs (token s)"
  have l: "?i < length (sockets ?R)" and n: "sockets ?R ! ?i = ?new"
    by (simp_all add: runBuildStep_socket)
  have u: "(sockets ?R)[?i := w] = sockets s @ [w]" for w
    by (simp add: runBuildStep_socket)
  have o: "filter isOutcome (snd (ws_run pre ?new)) = []"
    using ws_run_nonTerminal [OF assms, of ?new] by (simp add: newWebSocket_def)
  have e: "pendingBuild fs pre s
             = (fold appCallback (snd (ws_run pre ?new)) ?R)
                 \<lparr>sockets := sockets s @ [fst (ws_run pre ?new)]\<rparr>"
    unfolding pendingBuild_def socketEvents_eq [OF l] n u ..
  show "sockets (pendingBuild fs pre s) = sockets s @ [fst (ws_run pre ?new)]"
    by (simp add: e)
  have "core (pendingBuild fs pre s)
          = (core (fold appCallback (snd (ws_run pre ?new)) ?R))
              \<lparr>sockets := sockets s @ [fst (ws_run pre ?new)]\<rparr>"
    by (simp add: e core_def)
  also have "\<dots> = (core ?R)\<lparr>sockets := sockets s @ [fst (ws_run pre ?new)]\<rparr>"
    by (simp add: core_progress [OF o])
  finally show "core (pendingBuild fs pre s)
           = core (?R\<lparr>sockets := sockets s @ [fst (ws_run pre ?new)]\<rparr>)"
    by (simp add: core_def)
qed

text \<open>
  \<^bold>\<open>C10\<close>.  A build is started and its connection receives only \<open>open\<close> and messages other
  than \<open>BUILD_DONE\<close> and \<open>BUILD_ERROR\<close> (no error event and no watchdog either: nothing has
  decided the build).  The session is in \<open>BUILDING\<close> and the client has not completed.  When
  the connection then closes with code 1000, \<open>onclose\<close> calls no callback, neither
  \<open>onComplete\<close> nor \<open>onError\<close>, and the watchdog is cancelled; the session changes in nothing
  but that socket, so it is still in \<open>BUILDING\<close> and no request has been made after the build
  request; whatever events follow on that connection change nothing, and the connection
  never reports an outcome.
\<close>

theorem normal_close_leaves_build_pending:
  fixes s :: App
  assumes "list_all nonTerminal pre"
  shows "buildState (pendingBuild fs pre s) = BUILDING
       \<and> sockets (pendingBuild fs pre s) ! length (sockets s)
           = fst (ws_run pre (newWebSocket fs (token s)))
       \<and> \<not> completed (sockets (pendingBuild fs pre s) ! length (sockets s))
       \<and> snd (ws_dispatch (EV_close 1000 reason) (sockets (pendingBuild fs pre s) ! length (sockets s)))
           = []
       \<and> \<not> timeoutArmed (sockets (closedNormally fs pre reason s) ! length (sockets s))
       \<and> closedNormally fs pre reason s
           = (pendingBuild fs pre s)\<lparr>sockets := sockets (closedNormally fs pre reason s)\<rparr>
       \<and> buildState (closedNormally fs pre reason s) = BUILDING
       \<and> calls (closedNormally fs pre reason s) = calls s @ [Call_buildBot fs (token s)]
       \<and> (\<forall>post. socketEvents (length (sockets s)) post (closedNormally fs pre reason s)
                    = closedNormally fs pre reason s)
       \<and> (\<forall>post. reportedOutcome (pre @ EV_close 1000 reason # post) fs (token s) = [])"
proof -
  let ?i = "length (sockets s)"
  let ?new = "newWebSocket fs (token s)"
  let ?P = "pendingBuild fs pre s"
  let ?Q = "closedNormally fs pre reason s"
  let ?w = "fst (ws_run pre ?new)"
  let ?c = "fst (ws_dispatch (EV_close 1000 reason) ?w)"
  note pe = pendingBuild_eq [OF assms, of fs s]
  from ws_run_nonTerminal [OF assms, of ?new]
  have o: "filter isOutcome (snd (ws_run pre ?new)) = []"
    and nc: "\<not> completed ?w" and nf: "\<not> closeEventFired ?w"
    by (simp_all add: newWebSocket_def)
  note cl = ws_dispatch_close_1000 [OF nf, of reason]
  have l: "?i < length (sockets ?P)" and n: "sockets ?P ! ?i = ?w"
    by (simp_all add: pe(1))
  have b: "buildState ?P = BUILDING" and k: "calls ?P = calls s @ [Call_buildBot fs (token s)]"
    using arg_cong [OF pe(2), of buildState] arg_cong [OF pe(2), of calls]
    by (simp_all add: core_fields runBuildStep_socket)
  have q: "?Q = ?P\<lparr>sockets := sockets s @ [?c]\<rparr>"
    unfolding closedNormally_def socketEvent_eq [OF l] n by (simp add: cl(1) pe(1))
  have qs: "sockets ?Q = sockets s @ [?c]" by (simp add: q)
  have ql: "?i < length (sockets ?Q)" and qn: "sockets ?Q ! ?i = ?c"
    by (simp_all add: qs)
  have after: "socketEvents ?i post ?Q = ?Q" for post
    unfolding socketEvents_eq [OF ql] qn ws_run_closedSocket [OF cl(2)]
    by (simp add: qs)
  have never: "reportedOutcome (pre @ EV_close 1000 reason # post) fs (token s) = []" for post
    by (simp add: reportedOutcome_def ws_run_append o split_beta cl(1) ws_run_closedSocket [OF cl(2)])
  from cl(2) have t: "\<not> timeoutArmed ?c" by (simp add: closedSocket_def)
  show ?thesis
    using b n nc cl(1) t after never
    by (simp add: qn q k)
qed

text \<open>The theorem for a fresh session whose build connection opens and sends one progress
  line before it closes with code 1000.\<close>

theorem normal_close_leaves_build_pending_witness:
  "list_all nonTerminal [EV_open, EV_message (BUILD_LOG (Some ''Step 1/6 : FROM python:3.12-slim''))]
   \<and> buildState (pendingBuild [] [EV_open, EV_message (BUILD_LOG (Some ''Step 1/6 : FROM python:3.12-slim''))]
                   initialApp) = BUILDING
   \<and> buildState (closedNormally [] [EV_open, EV_message (BUILD_LOG (Some ''Step 1/6 : FROM python:3.12-slim''))]
                   [] initialApp) = BUILDING
   \<and> snd (ws_dispatch (EV_close 1000 [])
             (sockets (pendingBuild [] [EV_open, EV_message (BUILD_LOG (Some ''Step 1/6 : FROM python:3.12-slim''))]
                         initialApp) ! 0)) = []
   \<and> \<not> timeoutArmed (sockets (closedNormally [] [EV_open, EV_message (BUILD_LOG (Some ''Step 1/6 : FROM python:3.12-slim''))]
                                  [] initialApp) ! 0)
   \<and> (\<forall>post. reportedOutcome ([EV_open, EV_message (BUILD_LOG (Some ''Step 1/6 : FROM python:3.12-slim''))]
                                @ EV_close 1000 [] # post) [] [] = [])"
proof -
  let ?pre = "[EV_open, EV_message (BUILD_LOG (Some ''Step 1/6 : FROM python:3.12-slim''))]"
  have h: "list_all nonTerminal ?pre"
    by (simp add: nonTerminal_def)
  have i: "length (sockets initialApp) = 0" "token initialApp = []"
    by (simp_all add: initialApp_def)
  from normal_close_leaves_build_pending [OF h, of "[]" initialApp "[]", unfolded i] h
  show ?thesis by blast
qed

subsection \<open>Build connections\<close>

lemma handleFileUpdate_build:
  "sockets (handleFileUpdate n c s) = sockets s"
  "token (handleFileUpdate n c s) = token s"
  "buildState (handleFileUpdate n c s) = buildState s"
  "runtimeState (handleFileUpdate n c s) = runtimeState s"
  "hasUnrebuiltChanges (handleFileUpdate n c s)"
  by (simp_all add: handleFileUpdate_def addLog_def)

lemma handleRebuild_sync_build:
  "sockets (handleRebuild_sync r s) = sockets s"
  "token (handleRebuild_sync r s) = token s"
  "buildState (handleRebuild_sync r s) = buildState s"
  "runtimeState (handleRebuild_sync r s) = runtimeState s"
  "hasUnrebuiltChanges (handleRebuild_sync r s) = hasUnrebuiltChanges s"
  "generatedFiles (handleRebuild_sync r s) = generatedFiles s"
  by (simp_all add: handleRebuild_sync_def stopBot_sync_def Let_def addLog_def addRuntimeLog_def)

lemma stopBot_cont_build:
  "sockets (stopBot_cont s) = sockets s"
  "token (stopBot_cont s) = token s"
  "buildState (stopBot_cont s) = buildState s"
  by (simp_all add: stopBot_cont_def addRuntimeLog_def)

lemma handleRebuild_cont_build:
  "sockets (handleRebuild_cont r s) = sockets s @ [newWebSocket (r_generatedFiles r) (token s)]"
  "token (handleRebuild_cont r s) = token s"
  "buildState (handleRebuild_cont r s) = BUILDING"
  by (simp_all add: handleRebuild_cont_def Let_def runBuildStep_socket resetRuntime_def
      runBuildStep_def buildBot_def addLog_def)

lemma handleRebuild_build:
  assumes "r_runtimeState r = STOPPED \<or> res = Inr ()"
  shows "sockets (snd (handleRebuild r res s))
           = sockets s @ [newWebSocket (r_generatedFiles r) (token s)]"
  by (simp add: handleRebuild_returns [OF assms] handleRebuild_cont_build handleRebuild_sync_build
      stopBot_cont_build)

lemma live_newWebSocket [simp]: "live (newWebSocket fs tok)"
  by (simp add: live_def newWebSocket_def)

lemma resolved_not_live: "map resolved xs = map (\<lambda>x. True) xs \<Longrightarrow> filter live xs = []"
  by (induction xs) (auto simp: resolved_def)

lemma list_all_resolved_not_live: "list_all resolved xs \<Longrightarrow> filter live xs = []"
  by (induction xs) (auto simp: resolved_def)

lemma editedSession_facts:
  "editedSession = handleFileUpdate ''main.py'' ''print(2)'' runningSession"
  "sockets editedSession = sockets successSession"
  "buildState editedSession = SUCCESS"
  "hasUnrebuiltChanges editedSession"
  "runtimeState editedSession = RUNNING"
  "rebuildAvailable editedSession"
proof -
  have b: "botRunnerShown runningSession"
    by (simp add: botRunnerShown_def runningSession_eq startBot_build successSession_facts)
  have f: "''main.py'' \<in> set (map name (generatedFiles runningSession))"
    unfolding runningSession_eq startBot_build successSession_facts by simp
  from b f show e: "editedSession = handleFileUpdate ''main.py'' ''print(2)'' runningSession"
    by (simp add: editedSession_def saveFile_def)
  show "sockets editedSession = sockets successSession"
    by (simp add: e handleFileUpdate_build runningSession_eq startBot_build)
  show s: "buildState editedSession = SUCCESS"
    by (simp add: e handleFileUpdate_build runningSession_eq startBot_build successSession_facts)
  show h: "hasUnrebuiltChanges editedSession"
    by (simp add: e handleFileUpdate_build)
  show "runtimeState editedSession = RUNNING"
    by (simp add: e handleFileUpdate_build runningSession_eq startBot_running)
  from s h show "rebuildAvailable editedSession"
    by (simp add: rebuildAvailable_def rebuildDisabled_def botRunnerShown_def)
qed

lemma list_all_resolved_successSession: "list_all resolved (sockets successSession)"
proof -
  have "list_all (\<lambda>b. b) (map resolved (sockets successSession))"
    unfolding successSession_facts by simp
  then show ?thesis by (simp add: list_all_iff)
qed

lemma ws_run_log_line:
  "ws_run [EV_open, EV_message (BUILD_LOG (Some ''Step 1/6 : FROM python:3.12-slim''))]
      (newWebSocket fs tok)
     = ((newWebSocket fs tok)\<lparr>readyState := OPEN, sent := [(fs, tok)]\<rparr>,
        [CB_onProgress ''Step 1/6 : FROM python:3.12-slim''])"
  by (simp add: ws_dispatch_def ws_onopen_def ws_onmessage_def newWebSocket_def toLowerCase_def)

text \<open>
  \<^bold>\<open>C2\<close>, as stated, fails.  The build has succeeded and the bot runs; the user saves an edit
  and clicks Rebuild, and clicks again while the stop request of the first click is under
  way: the button is still enabled, since the session is still in \<open>SUCCESS\<close> with unrebuilt
  changes.  Each click goes on to \<open>runBuildStep\<close>.  After the first the session is in
  \<open>BUILDING\<close> with one live connection; the second enters \<open>BUILDING\<close> again and opens
  another connection, while the connection of the first is still live and \<open>close\<close> has not
  been called on it: two live connections.  A progress line that then arrives on the older
  connection is written to the build log.
\<close>

theorem one_live_connection_counterexample:
  "rebuildAvailable editedSession
   \<and> rebuildAvailable firstClick
   \<and> buildState firstRebuild = BUILDING
   \<and> liveConnections firstRebuild = 1
   \<and> buildState secondRebuild = BUILDING
   \<and> map live (sockets secondRebuild) = [False, True, True]
   \<and> liveConnections secondRebuild = 2
   \<and> closeCalls (sockets secondRebuild ! 1) = []
   \<and> logs (socketEvents 1 [EV_open, EV_message (BUILD_LOG (Some ''Step 1/6 : FROM python:3.12-slim''))]
              secondRebuild)
       = logs secondRebuild @ [\<lparr>message = ''Step 1/6 : FROM python:3.12-slim'', type = Log\<rparr>]"
proof -
  note e = editedSession_facts(2-6)
  have l0: "filter live (sockets successSession) = []"
    by (rule list_all_resolved_not_live [OF list_all_resolved_successSession])
  have n0: "length (sockets successSession) = 1"
    using arg_cong [OF successSession_facts(5), of length] by simp
  have m0: "map live (sockets successSession) = [False]"
  proof -
    from n0 obtain w where w: "sockets successSession = [w]"
      by (cases "sockets successSession") simp_all
    with l0 show ?thesis by (simp split: if_splits)
  qed
  have a1: "rebuildAvailable firstClick"
    by (simp add: firstClick_def rebuildAvailable_def rebuildDisabled_def botRunnerShown_def
        handleRebuild_sync_build e)
  have s1: "sockets firstRebuild
              = sockets successSession @ [newWebSocket (generatedFiles editedSession) (token editedSession)]"
    by (simp add: firstRebuild_def secondClick_def firstClick_def handleRebuild_cont_build
        stopBot_cont_build handleRebuild_sync_build e render_def)
  have t1: "token firstRebuild = token editedSession"
    by (simp add: firstRebuild_def secondClick_def firstClick_def handleRebuild_cont_build
        stopBot_cont_build handleRebuild_sync_build)
  have s2: "sockets secondRebuild
              = sockets successSession
                @ [newWebSocket (generatedFiles editedSession) (token editedSession),
                   newWebSocket (generatedFiles editedSession) (token editedSession)]"
    by (simp add: secondRebuild_def handleRebuild_cont_build stopBot_cont_build s1 t1 render_def
        firstClick_def handleRebuild_sync_build)
  have b1: "buildState firstRebuild = BUILDING"
    by (simp add: firstRebuild_def handleRebuild_cont_build)
  have b2: "buildState secondRebuild = BUILDING"
    by (simp add: secondRebuild_def handleRebuild_cont_build)
  have c1: "liveConnections firstRebuild = 1"
    by (simp add: liveConnections_def s1 l0)
  have c2: "liveConnections secondRebuild = 2"
    by (simp add: liveConnections_def s2 l0)
  have m2: "map live (sockets secondRebuild) = [False, True, True]"
    by (simp add: s2 m0)
  have i: "1 < length (sockets secondRebuild)"
    by (simp add: s2 n0)
  have n: "sockets secondRebuild ! 1
             = newWebSocket (generatedFiles editedSession) (token editedSession)"
    by (simp add: s2 n0 nth_append)
  have cc: "closeCalls (sockets secondRebuild ! 1) = []"
    unfolding n by (simp add: newWebSocket_def)
  have ev: "logs (socketEvents 1 [EV_open, EV_message (BUILD_LOG (Some ''Step 1/6 : FROM python:3.12-slim''))]
                    secondRebuild)
       = logs secondRebuild @ [\<lparr>message = ''Step 1/6 : FROM python:3.12-slim'', type = Log\<rparr>]"
    unfolding socketEvents_eq [OF i] n ws_run_log_line
    by (simp add: appCallback_simps addLog_def)
  from editedSession_facts(6) a1 b1 c1 b2 m2 c2 cc ev show ?thesis by blast
qed

lemma ws_dispatch_resolved:
  assumes "resolved ws"
  shows "snd (ws_dispatch ev ws) = [] \<and> resolved (fst (ws_dispatch ev ws))"
proof (cases ev)
  case (EV_message d)
  with assms show ?thesis
    by (cases "readyState ws") (simp_all add: resolved_def live_def ws_dispatch_def)
next
  case EV_timeout
  with assms show ?thesis
    by (cases "readyState ws")
       (simp_all add: resolved_def live_def ws_dispatch_def timeoutHandler_def)
qed (use assms in \<open>auto simp: resolved_def live_def ws_dispatch_def ws_onerror_def ws_onclose_def
        cleanup_def Let_def\<close>)

lemma ws_run_resolved:
  "resolved ws \<Longrightarrow> snd (ws_run evs ws) = [] \<and> resolved (fst (ws_run evs ws))"
proof (induction evs arbitrary: ws)
  case Nil
  then show ?case by simp
next
  case (Cons ev evs)
  note d = ws_dispatch_resolved [OF Cons.prems, of ev]
  from Cons.IH [of "fst (ws_dispatch ev ws)"] d show ?case
    by (simp add: split_beta)
qed

lemma ws_dispatch_settled:
  assumes "completed ws \<longrightarrow> \<not> live ws"
  shows "(completed (fst (ws_dispatch ev ws)) \<longrightarrow> \<not> live (fst (ws_dispatch ev ws)))
       \<and> (filter isOutcome (snd (ws_dispatch ev ws)) \<noteq> [] \<longrightarrow> completed (fst (ws_dispatch ev ws)))
       \<and> (completed ws \<longrightarrow> completed (fst (ws_dispatch ev ws)))"
proof (cases ev)
  case (EV_message d)
  with assms show ?thesis
    by (cases d; cases "readyState ws")
       (auto simp: live_def ws_dispatch_def ws_onmessage_def ws_close_def cleanup_def Let_def
          split: option.splits)
next
  case EV_timeout
  with assms show ?thesis
    by (cases "readyState ws")
       (auto simp: live_def ws_dispatch_def timeoutHandler_def ws_close_def Let_def)
qed (use assms in \<open>auto simp: live_def ws_dispatch_def ws_onopen_def ws_onerror_def ws_onclose_def
        cleanup_def Let_def\<close>)

lemma ws_run_settled:
  assumes "completed ws \<longrightarrow> \<not> live ws"
  shows "(completed (fst (ws_run evs ws)) \<longrightarrow> \<not> live (fst (ws_run evs ws)))
       \<and> (filter isOutcome (snd (ws_run evs ws)) \<noteq> [] \<longrightarrow> completed (fst (ws_run evs ws)))
       \<and> (completed ws \<longrightarrow> completed (fst (ws_run evs ws)))"
  using assms
proof (induction evs arbitrary: ws)
  case Nil
  then show ?case by simp
next
  case (Cons ev evs)
  note d = ws_dispatch_settled [OF Cons.prems, of ev]
  from d have "completed (fst (ws_dispatch ev ws)) \<longrightarrow> \<not> live (fst (ws_dispatch ev ws))"
    by blast
  from Cons.IH [OF this] d show ?case
    by (auto simp: split_beta)
qed

lemma outcome_resolved:
  assumes "reportedOutcome evs fs tok \<noteq> []"
  shows "resolved (fst (ws_run evs (newWebSocket fs tok)))"
proof -
  have "completed (newWebSocket fs tok) \<longrightarrow> \<not> live (newWebSocket fs tok)"
    by (simp add: newWebSocket_def)
  from ws_run_settled [OF this, of evs] assms show ?thesis
    by (simp add: reportedOutcome_def resolved_def)
qed

lemma ws_dispatch_closeCalls:
  assumes "closeCalls (fst (ws_dispatch ev ws)) \<noteq> closeCalls ws"
  shows "ev = EV_timeout \<or> ev = EV_message BUILD_DONE \<or> (\<exists>m. ev = EV_message (BUILD_ERROR m))"
proof (cases ev)
  case (EV_message d)
  with assms show ?thesis
    by (cases d) (auto simp: ws_dispatch_def ws_onmessage_def split: option.splits if_splits)
qed (use assms in \<open>auto simp: ws_dispatch_def ws_onopen_def ws_onerror_def ws_onclose_def
        cleanup_def Let_def split: if_splits\<close>)

lemma socketEvents_resolved:
  fixes t :: App
  assumes "i < length (sockets t)" "resolved (sockets t ! i)"
  shows "(socketEvents i evs t)\<lparr>sockets := sockets t\<rparr> = t"
  unfolding socketEvents_eq [OF assms(1)]
  using ws_run_resolved [OF assms(2), of evs] by simp


lemma appended_connection:
  fixes t :: App
  assumes "sockets t = sockets s @ [newWebSocket fs tok]" "list_all resolved (sockets s)"
  shows "liveConnections t = 1"
    and "\<forall>i<length (sockets s). \<forall>evs. (socketEvents i evs t)\<lparr>sockets := sockets t\<rparr> = t"
proof -
  show "liveConnections t = 1"
    by (simp add: liveConnections_def assms(1) list_all_resolved_not_live [OF assms(2)])
  show "\<forall>i<length (sockets s). \<forall>evs. (socketEvents i evs t)\<lparr>sockets := sockets t\<rparr> = t"
  proof (intro allI impI)
    fix i evs
    assume i: "i < length (sockets s)"
    then have l: "i < length (sockets t)" and n: "sockets t ! i = sockets s ! i"
      by (simp_all add: assms(1) nth_append)
    from assms(2) i have "resolved (sockets s ! i)"
      by (simp add: list_all_length)
    with n have "resolved (sockets t ! i)" by simp
    from socketEvents_resolved [OF l this]
    show "(socketEvents i evs t)\<lparr>sockets := sockets t\<rparr> = t" .
  qed
qed

text \<open>
  \<^bold>\<open>C2\<close>, amended.  \<open>runBuildStep\<close> opens one new connection and leaves the existing ones
  as they are, so the number of live connections grows by one; no previous connection is
  closed.  The client calls \<open>close\<close> on a connection only in that connection's own handlers
  for \<open>BUILD_DONE\<close>, \<open>BUILD_ERROR\<close> and the watchdog.  A connection that has reported an
  outcome is resolved, and a resolved connection stays resolved and calls nothing more.
  Hence, when every earlier connection is resolved, after \<open>runBuildStep\<close> exactly one
  connection is live and an event of an earlier connection changes nothing of the session but
  that socket; the same holds for a click on Rebuild that goes on to its build step (the bot
  is stopped, or the request to stop it returns), which takes the session to \<open>BUILDING\<close>.
\<close>

theorem new_build_keeps_connections:
  fixes s :: App
  shows
    "sockets (runBuildStep fs s) = sockets s @ [newWebSocket fs (token s)]
     \<and> liveConnections (runBuildStep fs s) = liveConnections s + 1
     \<and> (closeCalls (fst (ws_dispatch ev ws)) \<noteq> closeCalls ws \<longrightarrow>
          ev = EV_timeout \<or> ev = EV_message BUILD_DONE \<or> (\<exists>m. ev = EV_message (BUILD_ERROR m)))
     \<and> (reportedOutcome evs fs' tok \<noteq> [] \<longrightarrow> resolved (fst (ws_run evs (newWebSocket fs' tok))))
     \<and> (resolved ws' \<longrightarrow>
          snd (ws_dispatch ev' ws') = [] \<and> resolved (fst (ws_dispatch ev' ws')))
     \<and> (list_all resolved (sockets s) \<longrightarrow>
          liveConnections (runBuildStep fs s) = 1
          \<and> (\<forall>i<length (sockets s). \<forall>evs'.
                (socketEvents i evs' (runBuildStep fs s))\<lparr>sockets := sockets (runBuildStep fs s)\<rparr>
                  = runBuildStep fs s)
          \<and> (rebuildAvailable s \<and> (runtimeState s = STOPPED \<or> res = Inr ()) \<longrightarrow>
                buildState (clickRebuild res s) = BUILDING
                \<and> liveConnections (clickRebuild res s) = 1
                \<and> (\<forall>i<length (sockets s). \<forall>evs'.
                      (socketEvents i evs' (clickRebuild res s))
                        \<lparr>sockets := sockets (clickRebuild res s)\<rparr>
                        = clickRebuild res s)))"
proof -
  have a: "sockets (runBuildStep fs s) = sockets s @ [newWebSocket fs (token s)]"
    by (rule runBuildStep_socket(1))
  have b: "liveConnections (runBuildStep fs s) = liveConnections s + 1"
    by (simp add: liveConnections_def a)
  have c: "closeCalls (fst (ws_dispatch ev ws)) \<noteq> closeCalls ws \<longrightarrow>
             ev = EV_timeout \<or> ev = EV_message BUILD_DONE \<or> (\<exists>m. ev = EV_message (BUILD_ERROR m))"
    using ws_dispatch_closeCalls [of ev ws] by blast
  have d: "reportedOutcome evs fs' tok \<noteq> [] \<longrightarrow> resolved (fst (ws_run evs (newWebSocket fs' tok)))"
    using outcome_resolved [of evs fs' tok] by blast
  have e: "resolved ws' \<longrightarrow>
             snd (ws_dispatch ev' ws') = [] \<and> resolved (fst (ws_dispatch ev' ws'))"
    using ws_dispatch_resolved [of ws' ev'] by blast
  have f: "liveConnections (runBuildStep fs s) = 1
          \<and> (\<forall>i<length (sockets s). \<forall>evs'.
                (socketEvents i evs' (runBuildStep fs s))\<lparr>sockets := sockets (runBuildStep fs s)\<rparr>
                  = runBuildStep fs s)"
    if r: "list_all resolved (sockets s)"
    using appended_connection [OF a r] by blast
  have g: "buildState (clickRebuild res s) = BUILDING
           \<and> liveConnections (clickRebuild res s) = 1
           \<and> (\<forall>i<length (sockets s). \<forall>evs'.
                 (socketEvents i evs' (clickRebuild res s))\<lparr>sockets := sockets (clickRebuild res s)\<rparr>
                   = clickRebuild res s)"
    if r: "list_all resolved (sockets s)"
      and v: "rebuildAvailable s \<and> (runtimeState s = STOPPED \<or> res = Inr ())"
  proof -
    from v have o: "r_runtimeState (render s) = STOPPED \<or> res = Inr ()"
      by (simp add: render_def)
    from v have k: "clickRebuild res s = snd (handleRebuild (render s) res s)"
      by (simp add: clickRebuild_def)
    have ks: "sockets (clickRebuild res s)
                = sockets s @ [newWebSocket (r_generatedFiles (render s)) (token s)]"
      by (simp add: k handleRebuild_build [OF o])
    have kb: "buildState (clickRebuild res s) = BUILDING"
      by (simp add: k handleRebuild_state [OF o])
    from appended_connection [OF ks r] kb show ?thesis by blast
  qed
  from a b c d e f g show ?thesis by blast
qed

text \<open>The theorem at \<open>editedSession\<close>, whose one connection is resolved and whose bot runs,
  with a stop request that returns; at the watchdog of a new socket; and at the connection
  of a failed build, which receives an error event afterwards.\<close>

theorem new_build_keeps_connections_witness:
  "list_all resolved (sockets editedSession)
   \<and> rebuildAvailable editedSession
   \<and> length (sockets editedSession) = 1
   \<and> liveConnections (runBuildStep [] editedSession) = 1
   \<and> buildState (clickRebuild (Inr ()) editedSession) = BUILDING
   \<and> liveConnections (clickRebuild (Inr ()) editedSession) = 1
   \<and> (\<forall>evs. (socketEvents 0 evs (clickRebuild (Inr ()) editedSession))
                \<lparr>sockets := sockets (clickRebuild (Inr ()) editedSession)\<rparr>
              = clickRebuild (Inr ()) editedSession)
   \<and> closeCalls (fst (ws_dispatch EV_timeout (newWebSocket [] []))) \<noteq> closeCalls (newWebSocket [] [])
   \<and> reportedOutcome buildFailsScript [] [] \<noteq> []
   \<and> resolved (fst (ws_run buildFailsScript (newWebSocket [] [])))
   \<and> resolved (fst (ws_dispatch EV_error (fst (ws_run buildFailsScript (newWebSocket [] [])))))
   \<and> snd (ws_dispatch EV_error (fst (ws_run buildFailsScript (newWebSocket [] [])))) = []"
proof -
  let ?w = "fst (ws_run buildFailsScript (newWebSocket [] []))"
  have h1: "list_all resolved (sockets editedSession)"
    by (simp add: editedSession_facts(2) list_all_resolved_successSession)
  have h2a: "rebuildAvailable editedSession"
    by (rule editedSession_facts(6))
  then have h2: "rebuildAvailable editedSession
                 \<and> (runtimeState editedSession = STOPPED \<or> (Inr () :: string + unit) = Inr ())"
    by simp
  have h3: "length (sockets editedSession) = 1"
    using arg_cong [OF successSession_facts(5), of length] by (simp add: editedSession_facts(2))
  then have h3': "0 < length (sockets editedSession)" by simp
  have h4: "closeCalls (fst (ws_dispatch EV_timeout (newWebSocket [] []))) \<noteq> closeCalls (newWebSocket [] [])"
    by (simp add: ws_dispatch_def timeoutHandler_def ws_close_def newWebSocket_def Let_def)
  have h5: "reportedOutcome buildFailsScript [] [] \<noteq> []"
    by (simp add: buildFailsScript_outcome)
  note t = new_build_keeps_connections [of "[]" editedSession EV_timeout "newWebSocket [] []"
      buildFailsScript "[]" "[]" ?w EV_error "Inr ()"]
  from t h5 have r: "resolved ?w" by blast
  from t r have q: "snd (ws_dispatch EV_error ?w) = [] \<and> resolved (fst (ws_dispatch EV_error ?w))"
    by blast
  from t h1 h2 have p: "liveConnections (runBuildStep [] editedSession) = 1
      \<and> buildState (clickRebuild (Inr ()) editedSession) = BUILDING
      \<and> liveConnections (clickRebuild (Inr ()) editedSession) = 1
      \<and> (\<forall>i<length (sockets editedSession). \<forall>evs'.
            (socketEvents i evs' (clickRebuild (Inr ()) editedSession))
              \<lparr>sockets := sockets (clickRebuild (Inr ()) editedSession)\<rparr>
            = clickRebuild (Inr ()) editedSession)"
    by blast
  with h3' have o: "\<forall>evs. (socketEvents 0 evs (clickRebuild (Inr ()) editedSession))
                \<lparr>sockets := sockets (clickRebuild (Inr ()) editedSession)\<rparr>
              = clickRebuild (Inr ()) editedSession"
    by blast
  from h1 h2a h3 h4 h5 r q p o show ?thesis by blast
qed

end
